theory Spec2Isabelle
  imports Complex_Main "HOL-Library.Sublist"
begin

section \<open>JavaScript strings and platform string functions\<close>

text \<open>
  A JavaScript string is modelled by its UTF-8 bytes. The functions of this section are
  the platform functions that \<^verbatim>\<open>HttpClient\<close> calls on strings: \<^verbatim>\<open>toUpperCase\<close>,
  \<^verbatim>\<open>includes\<close>, \<^verbatim>\<open>trim\<close>, \<^verbatim>\<open>String\<close> on a number, \<^verbatim>\<open>JSON.stringify\<close> on a string and
  the serializer behind \<^verbatim>\<open>URLSearchParams.toString\<close>.
\<close>

definition upperChar :: "char \<Rightarrow> char" where
  "upperChar c =
     (let n = (of_char c :: nat) in if 97 \<le> n \<and> n \<le> 122 then char_of (n - 32) else c)"

text \<open>
  \<^verbatim>\<open>toUpperCase\<close> on the ASCII letters. No character outside ASCII has an upper-case
  form made of the letters of \<^verbatim>\<open>GET\<close> or \<^verbatim>\<open>HEAD\<close>, which is all the client compares
  the result with.
\<close>

definition toUpperCase :: "string \<Rightarrow> string" where
  "toUpperCase s = map upperChar s"

fun includesStr :: "string \<Rightarrow> string \<Rightarrow> bool" where
  "includesStr [] sub = (sub = [])"
| "includesStr (c # cs) sub = (prefix sub (c # cs) \<or> includesStr cs sub)"

text \<open>
  The code points that \<^verbatim>\<open>String.prototype.trim\<close> removes (WhiteSpace and
  LineTerminator of ECMAScript), each in UTF-8.
\<close>

definition whiteSpace :: "string list" where
  "whiteSpace =
     [[CHR 0x09], [CHR 0x0A], [CHR 0x0B], [CHR 0x0C], [CHR 0x0D], [CHR 0x20],
      [CHR 0xC2, CHR 0xA0],
      [CHR 0xE1, CHR 0x9A, CHR 0x80],
      [CHR 0xE2, CHR 0x80, CHR 0x80], [CHR 0xE2, CHR 0x80, CHR 0x81],
      [CHR 0xE2, CHR 0x80, CHR 0x82], [CHR 0xE2, CHR 0x80, CHR 0x83],
      [CHR 0xE2, CHR 0x80, CHR 0x84], [CHR 0xE2, CHR 0x80, CHR 0x85],
      [CHR 0xE2, CHR 0x80, CHR 0x86], [CHR 0xE2, CHR 0x80, CHR 0x87],
      [CHR 0xE2, CHR 0x80, CHR 0x88], [CHR 0xE2, CHR 0x80, CHR 0x89],
      [CHR 0xE2, CHR 0x80, CHR 0x8A],
      [CHR 0xE2, CHR 0x80, CHR 0xA8], [CHR 0xE2, CHR 0x80, CHR 0xA9],
      [CHR 0xE2, CHR 0x80, CHR 0xAF],
      [CHR 0xE2, CHR 0x81, CHR 0x9F],
      [CHR 0xE3, CHR 0x80, CHR 0x80],
      [CHR 0xEF, CHR 0xBB, CHR 0xBF]]"

definition leadingLength :: "string list \<Rightarrow> string \<Rightarrow> nat" where
  "leadingLength table s =
     (case find (\<lambda>w. prefix w s) table of None \<Rightarrow> 0 | Some w \<Rightarrow> length w)"

function stripLeading :: "string list \<Rightarrow> string \<Rightarrow> string" where
  "stripLeading table s =
     (if s = [] \<or> leadingLength table s = 0 then s
      else stripLeading table (drop (leadingLength table s) s))"
  by pat_completeness auto
termination
  by (relation "measure (\<lambda>(table, s). length s)") auto

definition trim :: "string \<Rightarrow> string" where
  "trim s = rev (stripLeading (map rev whiteSpace) (rev (stripLeading whiteSpace s)))"

definition decimalDigit :: "nat \<Rightarrow> char" where
  "decimalDigit n = ''0123456789'' ! n"

function decimal :: "nat \<Rightarrow> string" where
  "decimal n = (if n < 10 then [decimalDigit n] else decimal (n div 10) @ [decimalDigit (n mod 10)])"
  by pat_completeness auto
termination
  by (relation "measure id") auto

text \<open>
  \<^verbatim>\<open>String(n)\<close> and \<^verbatim>\<open>`${n}`\<close> for an integer \<open>n\<close> below \<open>2\<^sup>5\<^sup>3\<close> in size, where every
  integer is a number and is printed digit by digit. Beyond that the platform rounds
  (and from \<open>10\<^sup>2\<^sup>1\<close> on prints an exponent), which this function does not do; numbers
  with a fraction, \<^verbatim>\<open>NaN\<close> and the infinities are not among the parameter values here.
\<close>

definition numberToString :: "int \<Rightarrow> string" where
  "numberToString n = (if n < 0 then CHR ''-'' # decimal (nat (- n)) else decimal (nat n))"

definition hexDigit :: "nat \<Rightarrow> char" where
  "hexDigit n = ''0123456789ABCDEF'' ! n"

definition lowerHexDigit :: "nat \<Rightarrow> char" where
  "lowerHexDigit n = ''0123456789abcdef'' ! n"

text \<open>\<^verbatim>\<open>JSON.stringify\<close> applied to a string: the quoted string with its escapes.\<close>

definition jsonEscape :: "char \<Rightarrow> string" where
  "jsonEscape c =
     (let n = (of_char c :: nat) in
      if c = CHR 0x22 then [CHR 0x5C, CHR 0x22]
      else if c = CHR 0x5C then [CHR 0x5C, CHR 0x5C]
      else if n = 8 then [CHR 0x5C, CHR ''b'']
      else if n = 9 then [CHR 0x5C, CHR ''t'']
      else if n = 10 then [CHR 0x5C, CHR ''n'']
      else if n = 12 then [CHR 0x5C, CHR ''f'']
      else if n = 13 then [CHR 0x5C, CHR ''r'']
      else if n < 32 then
        [CHR 0x5C, CHR ''u'', CHR ''0'', CHR ''0'', lowerHexDigit (n div 16), lowerHexDigit (n mod 16)]
      else [c])"

definition JSON_stringify :: "string \<Rightarrow> string" where
  "JSON_stringify s = [CHR 0x22] @ concat (map jsonEscape s) @ [CHR 0x22]"

text \<open>
  The \<^verbatim>\<open>application/x-www-form-urlencoded\<close> serializer of the URL standard, which
  \<^verbatim>\<open>URLSearchParams.toString\<close> runs: a space becomes \<^verbatim>\<open>+\<close>, the bytes of
  \<^verbatim>\<open>*-._\<close>, digits and ASCII letters stay, and every other byte becomes \<^verbatim>\<open>%XX\<close>.
\<close>

definition urlencodedKeeps :: "char \<Rightarrow> bool" where
  "urlencodedKeeps c =
     (let n = (of_char c :: nat) in
      n = 0x2A \<or> n = 0x2D \<or> n = 0x2E \<or> n = 0x5F \<or>
      (0x30 \<le> n \<and> n \<le> 0x39) \<or> (0x41 \<le> n \<and> n \<le> 0x5A) \<or> (0x61 \<le> n \<and> n \<le> 0x7A))"

definition urlencodedByte :: "char \<Rightarrow> string" where
  "urlencodedByte c =
     (if c = CHR 0x20 then [CHR ''+'']
      else if urlencodedKeeps c then [c]
      else [CHR ''%'', hexDigit (of_char c div 16), hexDigit (of_char c mod 16)])"

definition urlencodedString :: "string \<Rightarrow> string" where
  "urlencodedString s = concat (map urlencodedByte s)"

fun joinWith :: "string \<Rightarrow> string list \<Rightarrow> string" where
  "joinWith sep [] = []"
| "joinWith sep [x] = x"
| "joinWith sep (x # y # ys) = x @ sep @ joinWith sep (y # ys)"

definition URLSearchParams_toString :: "(string \<times> string) list \<Rightarrow> string" where
  "URLSearchParams_toString entries =
     joinWith ''&'' (map (\<lambda>(k, v). urlencodedString k @ ''='' @ urlencodedString v) entries)"

text \<open>\<^verbatim>\<open>a || b\<close> on an optional string: the empty string is falsy.\<close>

definition orString :: "string option \<Rightarrow> string \<Rightarrow> string" where
  "orString a b = (case a of None \<Rightarrow> b | Some s \<Rightarrow> if s = [] then b else s)"

text \<open>\<^verbatim>\<open>a || b\<close> on an optional number: zero is falsy.\<close>

definition orNumber :: "int option \<Rightarrow> int \<Rightarrow> int" where
  "orNumber a b = (case a of None \<Rightarrow> b | Some n \<Rightarrow> if n = 0 then b else n)"

text \<open>Object spread \<^verbatim>\<open>{...a, ...b}\<close> on plain objects: a later value wins, in its old place.\<close>

fun setProperty :: "string \<Rightarrow> string \<Rightarrow> (string \<times> string) list \<Rightarrow> (string \<times> string) list" where
  "setProperty k v [] = [(k, v)]"
| "setProperty k v (p # ps) = (if fst p = k then (k, v) # ps else p # setProperty k v ps)"

definition spread :: "(string \<times> string) list \<Rightarrow> (string \<times> string) list \<Rightarrow> (string \<times> string) list" where
  "spread a b = foldl (\<lambda>acc (k, v). setProperty k v acc) a b"

section \<open>types.ts\<close>

text \<open>
  A value of \<^verbatim>\<open>params\<close>. The declared type is \<^verbatim>\<open>string | number | boolean\<close>; the
  serializer also tests for \<^verbatim>\<open>undefined\<close> and \<^verbatim>\<open>null\<close>. Numbers are the integral ones.
\<close>

datatype ParamValue = PString string | PNumber int | PBoolean bool | PUndefined | PNull

fun String :: "ParamValue \<Rightarrow> string" where
  "String (PString s) = s"
| "String (PNumber n) = numberToString n"
| "String (PBoolean b) = (if b then ''true'' else ''false'')"
| "String PUndefined = ''undefined''"
| "String PNull = ''null''"

text \<open>
  \<^verbatim>\<open>shouldRetry\<close> is a function over error records, and an error record holds the
  configuration that holds the retry policy. The function is therefore kept by name
  (type \<open>'p\<close>); the host environment below says what each name computes.
\<close>

text \<open>
  \<^verbatim>\<open>count\<close> is a \<^verbatim>\<open>number\<close> that the client computes with (\<^verbatim>\<open>count > 0\<close>,
  \<^verbatim>\<open>retryCount <= 0\<close>, \<^verbatim>\<open>retryCount - 1\<close>): it ranges over the finite numbers, integral or
  not, with exact arithmetic. \<^verbatim>\<open>Infinity\<close>, under which \<^verbatim>\<open>retryCount - 1\<close> is
  \<^verbatim>\<open>Infinity\<close> again and the retries need not end, and \<^verbatim>\<open>NaN\<close> are left out.
\<close>

record 'p RetryConfig =
  count :: rat
  delay :: "int option"
  shouldRetry :: "'p option"

text \<open>
  \<^verbatim>\<open>headers\<close> is a plain object, in the order of its keys; an absent one is the empty
  list. \<^verbatim>\<open>params\<close> is the list \<^verbatim>\<open>Object.entries(params)\<close>. \<^verbatim>\<open>body\<close> is a string.
  \<open>http_method\<close> is the field \<^verbatim>\<open>method\<close>, and \<open>opt_url\<close> the field \<^verbatim>\<open>url\<close>.
\<close>

record 'p RequestOptions =
  http_method :: "string option"
  headers :: "(string \<times> string) list"
  body :: "string option"
  params :: "(string \<times> ParamValue) list option"
  timeout :: "int option"
  credentials :: "string option"
  retry :: "'p RetryConfig option"
  opt_url :: "string option"

record 'p HttpClientConfig =
  cfg_baseURL :: "string option"
  cfg_defaultHeaders :: "(string \<times> string) list"
  cfg_timeout :: "int option"
  cfg_credentials :: "string option"
  cfg_retry :: "'p RetryConfig option"

text \<open>Parsed data: the value of \<^verbatim>\<open>response.json()\<close> (type \<open>'j\<close>) or the text of the body.\<close>

datatype 'j Data = JsonValue 'j | TextValue string

text \<open>
  What a \<^verbatim>\<open>catch\<close> receives. \<open>ErrorRecord\<close> is the plain object of interface
  \<^verbatim>\<open>HttpRequestError\<close>: message, status, data, config, cause; an absent field is
  \<open>None\<close>, and \<^verbatim>\<open>data: null\<close> is \<open>Some None\<close>. \<open>NativeError\<close> is an instance of the
  platform's \<^verbatim>\<open>Error\<close> with its name and message; the cast
  \<^verbatim>\<open>error as HttpRequestError\<close> leaves it as it is.
\<close>

datatype ('j, 'p) HttpRequestError =
    ErrorRecord string "int option" "'j Data option option" "'p RequestOptions option"
      "('j, 'p) HttpRequestError option"
  | NativeError string string

fun error_status :: "('j, 'p) HttpRequestError \<Rightarrow> int option" where
  "error_status (ErrorRecord m s d c e) = s"
| "error_status (NativeError n m) = None"

fun error_message :: "('j, 'p) HttpRequestError \<Rightarrow> string" where
  "error_message (ErrorRecord m s d c e) = m"
| "error_message (NativeError n m) = m"

text \<open>\<^verbatim>\<open>error instanceof Error && error.name === name\<close>\<close>

fun isErrorNamed :: "string \<Rightarrow> ('j, 'p) HttpRequestError \<Rightarrow> bool" where
  "isErrorNamed name (NativeError n m) = (n = name)"
| "isErrorNamed name (ErrorRecord m s d c e) = False"

record ('j, 'p) HttpResponse =
  res_data :: "'j Data option"
  res_status :: int
  res_headers :: "(string \<times> string) list"
  res_config :: "'p RequestOptions"

section \<open>HttpClient.ts: request keys and URLs\<close>

text \<open>
  \<^verbatim>\<open>createRequestKey\<close> reads \<^verbatim>\<open>this.defaultCredentials\<close> only, which is passed here.
\<close>

definition createRequestKey :: "string \<Rightarrow> string \<Rightarrow> 'p RequestOptions \<Rightarrow> string" where
  "createRequestKey defaultCreds url options =
     orString (http_method options) ''GET'' @ ''-'' @ url @ ''-'' @
     orString (credentials options) defaultCreds @ ''-'' @
     JSON_stringify (orString (body options) '''')"

definition keepsParam :: "ParamValue \<Rightarrow> bool" where
  "keepsParam v = (v \<noteq> PUndefined \<and> v \<noteq> PNull \<and> trim (String v) \<noteq> [])"

definition createURLWithParams :: "string \<Rightarrow> (string \<times> ParamValue) list option \<Rightarrow> string" where
  "createURLWithParams url ps =
     (case ps of
        None \<Rightarrow> url
      | Some entries \<Rightarrow>
          (let searchParams = map (\<lambda>(k, v). (k, String v)) (filter (\<lambda>(k, v). keepsParam v) entries);
               queryString = URLSearchParams_toString searchParams
           in if queryString \<noteq> []
              then url @ (if includesStr url ''?'' then ''&'' else ''?'') @ queryString
              else url))"

section \<open>The platform: responses, the transport, callbacks\<close>

text \<open>
  The \<^verbatim>\<open>Response\<close> that \<^verbatim>\<open>fetch\<close> resolves with. \<open>resp_body\<close> says whether
  \<^verbatim>\<open>response.body\<close> is a stream (not \<^verbatim>\<open>null\<close>); \<open>resp_json\<close> and \<open>resp_text\<close> are
  what \<^verbatim>\<open>response.json()\<close> and \<^verbatim>\<open>response.text()\<close> settle with. Header names are in
  lower case, as \<^verbatim>\<open>Headers\<close> keeps them.
\<close>

record ('j, 'p) Response =
  resp_status :: int
  resp_headers :: "(string \<times> string) list"
  resp_body :: bool
  resp_json :: "('j, 'p) HttpRequestError + 'j"
  resp_text :: "('j, 'p) HttpRequestError + string"

text \<open>\<^verbatim>\<open>response.ok\<close> of the Fetch standard: the status is in the range 200 to 299.\<close>

definition Response_ok :: "('j, 'p) Response \<Rightarrow> bool" where
  "Response_ok response = (200 \<le> resp_status response \<and> resp_status response \<le> 299)"

definition Headers_get :: "(string \<times> string) list \<Rightarrow> string \<Rightarrow> string option" where
  "Headers_get hs name = map_of hs name"

text \<open>
  What \<^verbatim>\<open>request\<close> resolves with: an envelope, or whatever else a response-error
  function returned (its type allows an error record).
\<close>

datatype ('j, 'p) Returned =
    Envelope "('j, 'p) HttpResponse"
  | ReturnedError "('j, 'p) HttpRequestError"

text \<open>\<^verbatim>\<open>RequestInit\<close> as the client builds it; \<open>signal\<close> is the controller it belongs to.\<close>

record 'p FetchOptions = "'p RequestOptions" +
  signal :: nat

text \<open>
  How the transport call settles. \<open>TimeoutFires\<close>: the request's timer expires while the
  call is pending, its callback runs, and the call rejects with the abort reason.
\<close>

datatype ('j, 'p) FetchOutcome =
    Resolves "('j, 'p) Response"
  | Rejects "('j, 'p) HttpRequestError"
  | TimeoutFires

text \<open>
  A callback is a function of its argument and of the state \<open>'w\<close> of everything outside
  the client; it returns (\<open>Inr\<close>) or throws (\<open>Inl\<close>), and leaves a new outside state.
\<close>

type_synonym ('a, 'b, 'j, 'p, 'w) Callback =
  "'a \<Rightarrow> 'w \<Rightarrow> (('j, 'p) HttpRequestError + 'b) \<times> 'w"

text \<open>\<open>req_ident\<close> and \<open>res_ident\<close> stand for the identity of the interceptor object.\<close>

record ('j, 'p, 'w) RequestInterceptor =
  req_ident :: nat
  onRequest :: "('p RequestOptions, 'p RequestOptions, 'j, 'p, 'w) Callback option"
  onRequestError ::
    "(('j, 'p) HttpRequestError, ('j, 'p) HttpRequestError option, 'j, 'p, 'w) Callback option"

record ('j, 'p, 'w) ResponseInterceptor =
  res_ident :: nat
  onResponse :: "(('j, 'p) HttpResponse, ('j, 'p) HttpResponse, 'j, 'p, 'w) Callback option"
  onResponseError ::
    "(('j, 'p) HttpRequestError, ('j, 'p) Returned, 'j, 'p, 'w) Callback option"

record ('j, 'p, 'w) Host =
  fetch :: "string \<Rightarrow> 'p FetchOptions \<Rightarrow> 'w \<Rightarrow> ('j, 'p) FetchOutcome \<times> 'w"
  predicate :: "'p \<Rightarrow> ('j, 'p) HttpRequestError \<Rightarrow> bool"

text \<open>
  The log of calls, each with its argument and how it settled: entries to \<^verbatim>\<open>request\<close>,
  interceptor functions (by interceptor identity), the transport, and \<^verbatim>\<open>delay\<close>.
\<close>

datatype ('j, 'p) Event =
    RequestCalled string "'p RequestOptions"
  | OnRequestCalled nat "'p RequestOptions" "('j, 'p) HttpRequestError + 'p RequestOptions"
  | OnRequestErrorCalled nat "('j, 'p) HttpRequestError"
      "('j, 'p) HttpRequestError + ('j, 'p) HttpRequestError option"
  | FetchCalled string "'p FetchOptions" "('j, 'p) FetchOutcome"
  | OnResponseCalled nat "('j, 'p) HttpResponse" "('j, 'p) HttpRequestError + ('j, 'p) HttpResponse"
  | OnResponseErrorCalled nat "('j, 'p) HttpRequestError"
      "('j, 'p) HttpRequestError + ('j, 'p) Returned"
  | DelayCalled int

section \<open>types.ts: the common interceptors\<close>

text \<open>
  \<^verbatim>\<open>createAuthInterceptor(getToken)\<close>. \<open>getToken\<close> reads the outside state and may throw;
  \<open>consoleError\<close> is what \<^verbatim>\<open>console.error\<close> does to the outside state with its message.
\<close>

definition createAuthInterceptor ::
  "nat \<Rightarrow> ('w \<Rightarrow> (('j, 'p) HttpRequestError + string) \<times> 'w) \<Rightarrow> (string \<Rightarrow> 'w \<Rightarrow> 'w)
     \<Rightarrow> ('j, 'p, 'w) RequestInterceptor" where
  "createAuthInterceptor ident getToken consoleError =
     \<lparr> req_ident = ident,
       onRequest = Some (\<lambda>config w.
         case getToken w of
           (Inl thrown, w') \<Rightarrow> (Inl thrown, w')
         | (Inr token, w') \<Rightarrow>
             (Inr (config\<lparr>headers :=
                spread (headers config) [(''Authorization'', ''Bearer '' @ token)]\<rparr>), w')),
       onRequestError = Some (\<lambda>error w.
         (Inl error, consoleError ''Auth interceptor request error:'' w)) \<rparr>"

text \<open>
  The response side of \<^verbatim>\<open>createLoggingInterceptor(logger)\<close>; \<open>logger\<close> is what
  \<^verbatim>\<open>logger.log\<close> and \<^verbatim>\<open>logger.error\<close> do to the outside state with their message.
\<close>

definition createLoggingInterceptor ::
  "nat \<Rightarrow> (string \<Rightarrow> 'w \<Rightarrow> 'w) \<Rightarrow> ('j, 'p, 'w) ResponseInterceptor" where
  "createLoggingInterceptor ident logger =
     \<lparr> res_ident = ident,
       onResponse = Some (\<lambda>response w.
         (Inr response, logger (''Response: '' @ numberToString (res_status response)) w)),
       onResponseError = Some (\<lambda>error w.
         (Inl error, logger (''Response Error: '' @ error_message error) w)) \<rparr>"

section \<open>HttpClient.ts: the client\<close>

text \<open>
  The fields of class \<^verbatim>\<open>HttpClient\<close>. \<open>pendingRequests\<close> is the \<^verbatim>\<open>Map\<close> from request
  key to \<^verbatim>\<open>AbortController\<close>, in insertion order; a controller is a number.
\<close>

record ('j, 'p, 'w) HttpClient =
  baseURL :: string
  defaultHeaders :: "(string \<times> string) list"
  defaultTimeout :: int
  defaultCredentials :: string
  defaultRetry :: "'p RetryConfig option"
  pendingRequests :: "(string \<times> nat) list"
  requestInterceptors :: "('j, 'p, 'w) RequestInterceptor list"
  responseInterceptors :: "('j, 'p, 'w) ResponseInterceptor list"

text \<open>
  The client together with the platform state its methods act on: how many controllers
  exist, the calls of \<^verbatim>\<open>abort()\<close> in order, the armed timers (identifier, duration,
  and the controller and key of the callback), the log, and the outside state.
\<close>

record ('j, 'p, 'w) System = "('j, 'p, 'w) HttpClient" +
  controllers :: nat
  aborted :: "nat list"
  timers :: "(nat \<times> int \<times> nat \<times> string) list"
  timerCount :: nat
  trace :: "('j, 'p) Event list"
  world :: 'w

definition Map_delete :: "string \<Rightarrow> (string \<times> nat) list \<Rightarrow> (string \<times> nat) list" where
  "Map_delete k m = filter (\<lambda>(k', c). k' \<noteq> k) m"

text \<open>The constructor, on a platform in which nothing has happened yet.\<close>

definition HttpClient_new :: "'p HttpClientConfig \<Rightarrow> 'w \<Rightarrow> ('j, 'p, 'w) System" where
  "HttpClient_new config w =
     \<lparr> baseURL = orString (cfg_baseURL config) [],
       defaultHeaders = spread [(''Content-Type'', ''application/json'')] (cfg_defaultHeaders config),
       defaultTimeout = orNumber (cfg_timeout config) 3000,
       defaultCredentials = orString (cfg_credentials config) ''same-origin'',
       defaultRetry = cfg_retry config,
       pendingRequests = [],
       requestInterceptors = [],
       responseInterceptors = [],
       controllers = 0, aborted = [], timers = [], timerCount = 0, trace = [], world = w \<rparr>"

definition addRequestInterceptor ::
  "('j, 'p, 'w) RequestInterceptor \<Rightarrow> ('j, 'p, 'w) System \<Rightarrow> ('j, 'p, 'w) System" where
  "addRequestInterceptor interceptor s =
     s\<lparr>requestInterceptors := requestInterceptors s @ [interceptor]\<rparr>"

definition addResponseInterceptor ::
  "('j, 'p, 'w) ResponseInterceptor \<Rightarrow> ('j, 'p, 'w) System \<Rightarrow> ('j, 'p, 'w) System" where
  "addResponseInterceptor interceptor s =
     s\<lparr>responseInterceptors := responseInterceptors s @ [interceptor]\<rparr>"

definition cancelRequest :: "string \<Rightarrow> ('j, 'p, 'w) System \<Rightarrow> ('j, 'p, 'w) System" where
  "cancelRequest requestKey s =
     (case map_of (pendingRequests s) requestKey of
        None \<Rightarrow> s
      | Some controller \<Rightarrow>
          s\<lparr>aborted := aborted s @ [controller],
            pendingRequests := Map_delete requestKey (pendingRequests s)\<rparr>)"

definition cancelAllRequests :: "('j, 'p, 'w) System \<Rightarrow> ('j, 'p, 'w) System" where
  "cancelAllRequests s =
     s\<lparr>aborted := aborted s @ map snd (pendingRequests s), pendingRequests := []\<rparr>"

definition getRequestKey :: "string \<Rightarrow> 'p RequestOptions \<Rightarrow> ('j, 'p, 'w) System \<Rightarrow> string" where
  "getRequestKey url options s = createRequestKey (defaultCredentials s) url options"

section \<open>HttpClient.ts: handleResponse\<close>

text \<open>The \<^verbatim>\<open>catch\<close> of \<^verbatim>\<open>handleResponse\<close>.\<close>

definition handleResponse_catch ::
  "('j, 'p) Response \<Rightarrow> 'p RequestOptions \<Rightarrow> ('j, 'p) HttpRequestError \<Rightarrow> ('j, 'p) HttpRequestError" where
  "handleResponse_catch response config error =
     (if isErrorNamed ''SyntaxError'' error
      then ErrorRecord ''Invalid response format'' (Some (resp_status response)) (Some None)
             (Some config) (Some error)
      else error)"

text \<open>The parsing step: \<open>Inl\<close> when \<^verbatim>\<open>json()\<close> or \<^verbatim>\<open>text()\<close> throws.\<close>

definition parseBody :: "('j, 'p) Response \<Rightarrow> ('j, 'p) HttpRequestError + 'j Data option" where
  "parseBody response =
     (if resp_body response \<and> Headers_get (resp_headers response) ''content-length'' \<noteq> Some ''0''
      then (case Headers_get (resp_headers response) ''content-type'' of
              None \<Rightarrow> map_sum id (\<lambda>t. Some (TextValue t)) (resp_text response)
            | Some contentType \<Rightarrow>
                if includesStr contentType ''application/json''
                then map_sum id (\<lambda>j. Some (JsonValue j)) (resp_json response)
                else map_sum id (\<lambda>t. Some (TextValue t)) (resp_text response))
      else Inr None)"

definition handleResponse ::
  "('j, 'p) Response \<Rightarrow> 'p RequestOptions \<Rightarrow> ('j, 'p) HttpRequestError + ('j, 'p) HttpResponse" where
  "handleResponse response config =
     (case parseBody response of
        Inl error \<Rightarrow> Inl (handleResponse_catch response config error)
      | Inr data \<Rightarrow>
          if \<not> Response_ok response
          then Inl (handleResponse_catch response config
                 (ErrorRecord (''HTTP error! status: '' @ numberToString (resp_status response))
                    (Some (resp_status response)) (Some data) (Some config) None))
          else Inr \<lparr> res_data = data, res_status = resp_status response,
                    res_headers = resp_headers response, res_config = config \<rparr>)"

section \<open>HttpClient.ts: the interceptor chains\<close>

definition invoke ::
  "('a \<Rightarrow> 'w \<Rightarrow> 'r \<times> 'w) \<Rightarrow> 'a \<Rightarrow> ('j, 'p, 'w) System \<Rightarrow> 'r \<times> ('j, 'p, 'w) System" where
  "invoke f a s = (case f a (world s) of (r, w) \<Rightarrow> (r, s\<lparr>world := w\<rparr>))"

definition logEvent :: "('j, 'p) Event \<Rightarrow> ('j, 'p, 'w) System \<Rightarrow> ('j, 'p, 'w) System" where
  "logEvent ev s = s\<lparr>trace := trace s @ [ev]\<rparr>"

text \<open>
  The inner loop of \<^verbatim>\<open>applyRequestInterceptors\<close>, over all the interceptors: \<open>Some e\<close>
  when an \<^verbatim>\<open>onRequestError\<close> throws \<open>e\<close>, which leaves the loop.
\<close>

fun notifyRequestError ::
  "('j, 'p, 'w) RequestInterceptor list \<Rightarrow> ('j, 'p) HttpRequestError \<Rightarrow> ('j, 'p, 'w) System
     \<Rightarrow> ('j, 'p) HttpRequestError option \<times> ('j, 'p, 'w) System" where
  "notifyRequestError [] error s = (None, s)"
| "notifyRequestError (interceptor # rest) error s =
     (case onRequestError interceptor of
        None \<Rightarrow> notifyRequestError rest error s
      | Some handler \<Rightarrow>
          (case invoke handler error s of
             (r, s1) \<Rightarrow>
               (let s2 = logEvent (OnRequestErrorCalled (req_ident interceptor) error r) s1
                in case r of
                     Inl thrown \<Rightarrow> (Some thrown, s2)
                   | Inr ignored \<Rightarrow> notifyRequestError rest error s2)))"

text \<open>
  The outer loop, over the interceptors still to run; \<open>registered\<close> is the whole array,
  which the inner loop walks again.
\<close>

fun requestChain ::
  "('j, 'p, 'w) RequestInterceptor list \<Rightarrow> ('j, 'p, 'w) RequestInterceptor list \<Rightarrow> 'p RequestOptions
     \<Rightarrow> ('j, 'p, 'w) System \<Rightarrow> (('j, 'p) HttpRequestError + 'p RequestOptions) \<times> ('j, 'p, 'w) System" where
  "requestChain registered [] currentConfig s = (Inr currentConfig, s)"
| "requestChain registered (interceptor # rest) currentConfig s =
     (case onRequest interceptor of
        None \<Rightarrow> requestChain registered rest currentConfig s
      | Some transform \<Rightarrow>
          (case invoke transform currentConfig s of
             (r, s1) \<Rightarrow>
               (let s2 = logEvent (OnRequestCalled (req_ident interceptor) currentConfig r) s1
                in case r of
                     Inr newConfig \<Rightarrow> requestChain registered rest newConfig s2
                   | Inl error \<Rightarrow>
                       (case notifyRequestError registered error s2 of
                          (None, s3) \<Rightarrow> (Inl error, s3)
                        | (Some thrown, s3) \<Rightarrow> (Inl thrown, s3)))))"

definition applyRequestInterceptors ::
  "'p RequestOptions \<Rightarrow> ('j, 'p, 'w) System
     \<Rightarrow> (('j, 'p) HttpRequestError + 'p RequestOptions) \<times> ('j, 'p, 'w) System" where
  "applyRequestInterceptors config s =
     requestChain (requestInterceptors s) (requestInterceptors s) config s"

fun notifyResponseError ::
  "('j, 'p, 'w) ResponseInterceptor list \<Rightarrow> ('j, 'p) HttpRequestError \<Rightarrow> ('j, 'p, 'w) System
     \<Rightarrow> ('j, 'p) HttpRequestError option \<times> ('j, 'p, 'w) System" where
  "notifyResponseError [] error s = (None, s)"
| "notifyResponseError (interceptor # rest) error s =
     (case onResponseError interceptor of
        None \<Rightarrow> notifyResponseError rest error s
      | Some handler \<Rightarrow>
          (case invoke handler error s of
             (r, s1) \<Rightarrow>
               (let s2 = logEvent (OnResponseErrorCalled (res_ident interceptor) error r) s1
                in case r of
                     Inl thrown \<Rightarrow> (Some thrown, s2)
                   | Inr ignored \<Rightarrow> notifyResponseError rest error s2)))"

fun responseChain ::
  "('j, 'p, 'w) ResponseInterceptor list \<Rightarrow> ('j, 'p, 'w) ResponseInterceptor list
     \<Rightarrow> ('j, 'p) HttpResponse \<Rightarrow> ('j, 'p, 'w) System
     \<Rightarrow> (('j, 'p) HttpRequestError + ('j, 'p) HttpResponse) \<times> ('j, 'p, 'w) System" where
  "responseChain registered [] currentResponse s = (Inr currentResponse, s)"
| "responseChain registered (interceptor # rest) currentResponse s =
     (case onResponse interceptor of
        None \<Rightarrow> responseChain registered rest currentResponse s
      | Some transform \<Rightarrow>
          (case invoke transform currentResponse s of
             (r, s1) \<Rightarrow>
               (let s2 = logEvent (OnResponseCalled (res_ident interceptor) currentResponse r) s1
                in case r of
                     Inr newResponse \<Rightarrow> responseChain registered rest newResponse s2
                   | Inl error \<Rightarrow>
                       (case notifyResponseError registered error s2 of
                          (None, s3) \<Rightarrow> (Inl error, s3)
                        | (Some thrown, s3) \<Rightarrow> (Inl thrown, s3)))))"

definition applyResponseInterceptors ::
  "('j, 'p) HttpResponse \<Rightarrow> ('j, 'p, 'w) System
     \<Rightarrow> (('j, 'p) HttpRequestError + ('j, 'p) HttpResponse) \<times> ('j, 'p, 'w) System" where
  "applyResponseInterceptors response s =
     responseChain (responseInterceptors s) (responseInterceptors s) response s"

section \<open>HttpClient.ts: request\<close>

definition clearTimeout :: "nat \<Rightarrow> ('j, 'p, 'w) System \<Rightarrow> ('j, 'p, 'w) System" where
  "clearTimeout timeoutId s = s\<lparr>timers := filter (\<lambda>t. fst t \<noteq> timeoutId) (timers s)\<rparr>"

text \<open>
  The timer \<open>timeoutId\<close> expires: its callback aborts the controller and deletes the key.
  A timer that was cleared does nothing.
\<close>

definition fireTimeout :: "nat \<Rightarrow> ('j, 'p, 'w) System \<Rightarrow> ('j, 'p, 'w) System" where
  "fireTimeout timeoutId s =
     (case find (\<lambda>t. fst t = timeoutId) (timers s) of
        None \<Rightarrow> s
      | Some (i, ms, controller, requestKey) \<Rightarrow>
          s\<lparr>aborted := aborted s @ [controller],
            pendingRequests := Map_delete requestKey (pendingRequests s),
            timers := filter (\<lambda>t. fst t \<noteq> timeoutId) (timers s)\<rparr>)"

text \<open>The reason of \<^verbatim>\<open>abort()\<close> called without one, with which the pending call rejects.\<close>

definition abortReason :: "('j, 'p) HttpRequestError" where
  "abortReason = NativeError ''AbortError'' ''signal is aborted without reason''"

definition effectiveRetry :: "'p RequestOptions \<Rightarrow> ('j, 'p, 'w) System \<Rightarrow> 'p RetryConfig option" where
  "effectiveRetry options s = (case retry options of Some r \<Rightarrow> Some r | None \<Rightarrow> defaultRetry s)"

text \<open>
  The statements of \<^verbatim>\<open>request\<close> before its \<^verbatim>\<open>try\<close>, but for the retry policy
  in effect, which is \<open>effectiveRetry\<close>: the controller, the key, the timer, and the
  state they leave.
\<close>

definition request_begin ::
  "string \<Rightarrow> 'p RequestOptions \<Rightarrow> ('j, 'p, 'w) System \<Rightarrow> nat \<times> string \<times> nat \<times> ('j, 'p, 'w) System" where
  "request_begin url options s =
     (let controller = controllers s;
          requestKey = createRequestKey (defaultCredentials s) url options;
          timeoutId = timerCount s
      in (controller, requestKey, timeoutId,
          (logEvent (RequestCalled url options) s)
            \<lparr>controllers := Suc controller,
             timerCount := Suc timeoutId,
             timers := timers s @
               [(timeoutId, orNumber (timeout options) (defaultTimeout s), controller, requestKey)]\<rparr>))"

text \<open>
  \<^verbatim>\<open>clearTimeout(timeoutId); this.pendingRequests.delete(requestKey)\<close>, which follows
  the transport call and opens the \<^verbatim>\<open>catch\<close>.
\<close>

definition request_cleanup :: "nat \<Rightarrow> string \<Rightarrow> ('j, 'p, 'w) System \<Rightarrow> ('j, 'p, 'w) System" where
  "request_cleanup timeoutId requestKey s =
     (let s1 = clearTimeout timeoutId s
      in s1\<lparr>pendingRequests := Map_delete requestKey (pendingRequests s1)\<rparr>)"

text \<open>\<^verbatim>\<open>fetchOptions\<close>, after the \<^verbatim>\<open>delete fetchOptions.body\<close> of GET and HEAD.\<close>

definition buildFetchOptions ::
  "('j, 'p, 'w) System \<Rightarrow> 'p RequestOptions \<Rightarrow> nat \<Rightarrow> 'p FetchOptions" where
  "buildFetchOptions s interceptedOptions controller =
     (let fetchOptions =
            \<lparr> http_method = http_method interceptedOptions,
              headers = spread (defaultHeaders s) (headers interceptedOptions),
              body = body interceptedOptions,
              params = params interceptedOptions,
              timeout = timeout interceptedOptions,
              credentials =
                Some (orString (credentials interceptedOptions) (defaultCredentials s)),
              retry = retry interceptedOptions,
              opt_url = opt_url interceptedOptions,
              signal = controller \<rparr>
      in if orString (map_option toUpperCase (http_method fetchOptions)) [] \<in> set [''GET'', ''HEAD'']
         then fetchOptions\<lparr>body := None\<rparr>
         else fetchOptions)"

text \<open>The \<^verbatim>\<open>try\<close> block of \<^verbatim>\<open>request\<close>.\<close>

definition request_try ::
  "('j, 'p, 'w) Host \<Rightarrow> string \<Rightarrow> 'p RequestOptions \<Rightarrow> nat \<Rightarrow> string \<Rightarrow> nat \<Rightarrow> ('j, 'p, 'w) System
     \<Rightarrow> (('j, 'p) HttpRequestError + ('j, 'p) HttpResponse) \<times> ('j, 'p, 'w) System" where
  "request_try host url options controller requestKey timeoutId s =
     (case applyRequestInterceptors options s of
        (Inl error, s1) \<Rightarrow> (Inl error, s1)
      | (Inr interceptedOptions, s1) \<Rightarrow>
          (let fullUrl = createURLWithParams (baseURL s1 @ url) (params interceptedOptions);
               fetchOptions = buildFetchOptions s1 interceptedOptions controller
           in case invoke (fetch host fullUrl) fetchOptions s1 of
                (outcome, s2) \<Rightarrow>
                  (let s3 = logEvent (FetchCalled fullUrl fetchOptions outcome) s2
                   in case outcome of
                        Rejects error \<Rightarrow> (Inl error, s3)
                      | TimeoutFires \<Rightarrow> (Inl abortReason, fireTimeout timeoutId s3)
                      | Resolves response \<Rightarrow>
                          (let s4 = request_cleanup timeoutId requestKey s3
                           in case handleResponse response interceptedOptions of
                                Inl error \<Rightarrow> (Inl error, s4)
                              | Inr handledResponse \<Rightarrow> applyResponseInterceptors handledResponse s4))))"

text \<open>
  The loop over \<^verbatim>\<open>responseInterceptors\<close> in the \<^verbatim>\<open>catch\<close> of \<^verbatim>\<open>request\<close>: \<open>Inr\<close> when
  an \<^verbatim>\<open>onResponseError\<close> returns, \<open>Inl\<close> with the variable \<^verbatim>\<open>error\<close> at the end of
  the loop otherwise.
\<close>

fun recoverLoop ::
  "('j, 'p, 'w) ResponseInterceptor list \<Rightarrow> ('j, 'p) HttpRequestError \<Rightarrow> ('j, 'p) HttpRequestError
     \<Rightarrow> ('j, 'p, 'w) System \<Rightarrow> (('j, 'p) HttpRequestError + ('j, 'p) Returned) \<times> ('j, 'p, 'w) System" where
  "recoverLoop [] httpError error s = (Inl error, s)"
| "recoverLoop (interceptor # rest) httpError error s =
     (case onResponseError interceptor of
        None \<Rightarrow> recoverLoop rest httpError error s
      | Some handler \<Rightarrow>
          (case invoke handler httpError s of
             (r, s1) \<Rightarrow>
               (let s2 = logEvent (OnResponseErrorCalled (res_ident interceptor) httpError r) s1
                in case r of
                     Inr returned \<Rightarrow> (Inr returned, s2)
                   | Inl interceptorError \<Rightarrow> recoverLoop rest httpError interceptorError s2)))"

definition translateAbort ::
  "'p RequestOptions \<Rightarrow> ('j, 'p) HttpRequestError \<Rightarrow> ('j, 'p) HttpRequestError" where
  "translateAbort options error =
     (if isErrorNamed ''AbortError'' error
      then ErrorRecord ''Request was cancelled'' None None (Some options) (Some error)
      else error)"

text \<open>The \<^verbatim>\<open>catch\<close> of \<^verbatim>\<open>request\<close> from the loop over the response interceptors on.\<close>

definition request_fallthrough ::
  "'p RequestOptions \<Rightarrow> ('j, 'p) HttpRequestError \<Rightarrow> ('j, 'p, 'w) System
     \<Rightarrow> (('j, 'p) HttpRequestError + ('j, 'p) Returned) \<times> ('j, 'p, 'w) System" where
  "request_fallthrough options httpError s =
     (case recoverLoop (responseInterceptors s) httpError httpError s of
        (Inr returned, s1) \<Rightarrow> (Inr returned, s1)
      | (Inl error, s1) \<Rightarrow> (Inl (translateAbort options error), s1))"

text \<open>\<^verbatim>\<open>error.status ? error.status >= 500 : true\<close>: a status of 0 is falsy.\<close>

definition defaultShouldRetry :: "('j, 'p) HttpRequestError \<Rightarrow> bool" where
  "defaultShouldRetry error =
     (case error_status error of
        None \<Rightarrow> True
      | Some status \<Rightarrow> if status \<noteq> 0 then status \<ge> 500 else True)"

text \<open>The local \<^verbatim>\<open>shouldRetry\<close> of \<^verbatim>\<open>retryRequest\<close>: the policy's function, or the default.\<close>

definition retryEligible ::
  "('j, 'p, 'w) Host \<Rightarrow> 'p RetryConfig \<Rightarrow> ('j, 'p) HttpRequestError \<Rightarrow> bool" where
  "retryEligible host retryConfig error =
     (case shouldRetry retryConfig of
        Some p \<Rightarrow> predicate host p error
      | None \<Rightarrow> defaultShouldRetry error)"

definition delay_ms :: "int \<Rightarrow> ('j, 'p, 'w) System \<Rightarrow> ('j, 'p, 'w) System" where
  "delay_ms ms s = logEvent (DelayCalled ms) s"

text \<open>\<^verbatim>\<open>if (retryConfig.delay) await this.delay(retryConfig.delay)\<close>\<close>

definition awaitDelay :: "'p RetryConfig \<Rightarrow> ('j, 'p, 'w) System \<Rightarrow> ('j, 'p, 'w) System" where
  "awaitDelay retryConfig s =
     (case delay retryConfig of
        None \<Rightarrow> s
      | Some ms \<Rightarrow> if ms \<noteq> 0 then delay_ms ms s else s)"

function request ::
  "('j, 'p, 'w) Host \<Rightarrow> string \<Rightarrow> 'p RequestOptions \<Rightarrow> ('j, 'p, 'w) System
     \<Rightarrow> (('j, 'p) HttpRequestError + ('j, 'p) Returned) \<times> ('j, 'p, 'w) System"
and retryRequest ::
  "('j, 'p, 'w) Host \<Rightarrow> string \<Rightarrow> 'p RequestOptions \<Rightarrow> ('j, 'p) HttpRequestError \<Rightarrow> rat
     \<Rightarrow> 'p RetryConfig \<Rightarrow> ('j, 'p, 'w) System
     \<Rightarrow> (('j, 'p) HttpRequestError + ('j, 'p) Returned) \<times> ('j, 'p, 'w) System" where
  "request host url options s =
     (case request_begin url options s of
        (controller, requestKey, timeoutId, s0) \<Rightarrow>
          (case request_try host url options controller requestKey timeoutId s0 of
             (Inr response, s1) \<Rightarrow> (Inr (Envelope response), s1)
           | (Inl error, s1) \<Rightarrow>
               (let s2 = request_cleanup timeoutId requestKey s1
                in case effectiveRetry options s of
                     None \<Rightarrow> request_fallthrough options error s2
                   | Some policy \<Rightarrow>
                       if count policy > 0
                       then retryRequest host url options error (count policy) policy s2
                       else request_fallthrough options error s2)))"
| "retryRequest host url options error retryCount retryConfig s =
     (if retryCount \<le> 0 then (Inl error, s)
      else if \<not> retryEligible host retryConfig error then (Inl error, s)
      else request host url
             (options\<lparr>retry := Some (retryConfig\<lparr>count := retryCount - 1\<rparr>)\<rparr>)
             (awaitDelay retryConfig s))"
  by pat_completeness auto
termination
  by (relation "measure (\<lambda>x. case x of
         Inl (host, url, options, s) \<Rightarrow>
           (case effectiveRetry options s of None \<Rightarrow> 1 | Some policy \<Rightarrow> 2 * nat \<lceil>count policy\<rceil> + 1)
       | Inr (host, url, options, error, retryCount, retryConfig, s) \<Rightarrow> 2 * nat \<lceil>retryCount\<rceil>)")
     (auto simp: effectiveRetry_def not_le nat_diff_distrib zero_less_nat_eq intro: Suc_lessI)

declare request.simps [simp del]
declare retryRequest.simps [simp del]

definition get ::
  "('j, 'p, 'w) Host \<Rightarrow> string \<Rightarrow> 'p RequestOptions \<Rightarrow> ('j, 'p, 'w) System
     \<Rightarrow> (('j, 'p) HttpRequestError + ('j, 'p) Returned) \<times> ('j, 'p, 'w) System" where
  "get host url options s = request host url (options\<lparr>http_method := Some ''GET''\<rparr>) s"

definition delete ::
  "('j, 'p, 'w) Host \<Rightarrow> string \<Rightarrow> 'p RequestOptions \<Rightarrow> ('j, 'p, 'w) System
     \<Rightarrow> (('j, 'p) HttpRequestError + ('j, 'p) Returned) \<times> ('j, 'p, 'w) System" where
  "delete host url options s = request host url (options\<lparr>http_method := Some ''DELETE''\<rparr>) s"

section \<open>Reading the log\<close>

fun attemptOf :: "('j, 'p) Event \<Rightarrow> (string \<times> 'p RequestOptions) list" where
  "attemptOf (RequestCalled url options) = [(url, options)]"
| "attemptOf ev = []"

text \<open>The entries to \<^verbatim>\<open>request\<close>, in order: the attempts.\<close>

definition attempts :: "('j, 'p) Event list \<Rightarrow> (string \<times> 'p RequestOptions) list" where
  "attempts evs = concat (map attemptOf evs)"

fun fetchOf :: "('j, 'p) Event \<Rightarrow> (string \<times> 'p FetchOptions) list" where
  "fetchOf (FetchCalled url fetchOptions outcome) = [(url, fetchOptions)]"
| "fetchOf ev = []"

text \<open>The calls of the transport, in order, each with its URL and options.\<close>

definition fetched :: "('j, 'p) Event list \<Rightarrow> (string \<times> 'p FetchOptions) list" where
  "fetched evs = concat (map fetchOf evs)"

fun requestErrorCallOf ::
  "('j, 'p) Event \<Rightarrow> (nat \<times> ('j, 'p) HttpRequestError \<times>
     (('j, 'p) HttpRequestError + ('j, 'p) HttpRequestError option)) list" where
  "requestErrorCallOf (OnRequestErrorCalled i error r) = [(i, error, r)]"
| "requestErrorCallOf ev = []"

text \<open>The calls of \<^verbatim>\<open>onRequestError\<close>: interceptor, argument, how the call settled.\<close>

definition requestErrorCalls ::
  "('j, 'p) Event list \<Rightarrow> (nat \<times> ('j, 'p) HttpRequestError \<times>
     (('j, 'p) HttpRequestError + ('j, 'p) HttpRequestError option)) list" where
  "requestErrorCalls evs = concat (map requestErrorCallOf evs)"

fun responseErrorCallOf ::
  "('j, 'p) Event \<Rightarrow> (nat \<times> ('j, 'p) HttpRequestError \<times>
     (('j, 'p) HttpRequestError + ('j, 'p) Returned)) list" where
  "responseErrorCallOf (OnResponseErrorCalled i error r) = [(i, error, r)]"
| "responseErrorCallOf ev = []"

text \<open>The calls of \<^verbatim>\<open>onResponseError\<close>: interceptor, argument, how the call settled.\<close>

definition responseErrorCalls ::
  "('j, 'p) Event list \<Rightarrow> (nat \<times> ('j, 'p) HttpRequestError \<times>
     (('j, 'p) HttpRequestError + ('j, 'p) Returned)) list" where
  "responseErrorCalls evs = concat (map responseErrorCallOf evs)"

text \<open>The calls that are not calls of a response interceptor.\<close>

fun requestSide :: "('j, 'p) Event \<Rightarrow> bool" where
  "requestSide (OnResponseCalled i response r) = False"
| "requestSide (OnResponseErrorCalled i error r) = False"
| "requestSide ev = True"

text \<open>The interceptors that have an error function, by identity, in registration order.\<close>

definition requestErrorHandlers :: "('j, 'p, 'w) RequestInterceptor list \<Rightarrow> nat list" where
  "requestErrorHandlers registered =
     map req_ident (filter (\<lambda>i. onRequestError i \<noteq> None) registered)"

definition responseErrorHandlers :: "('j, 'p, 'w) ResponseInterceptor list \<Rightarrow> nat list" where
  "responseErrorHandlers registered =
     map res_ident (filter (\<lambda>i. onResponseError i \<noteq> None) registered)"

section \<open>What a request may change\<close>

text \<open>
  The retries a policy allows: the number of times 1 can be taken from its count before
  the count is no longer above 0.
\<close>

definition retryBudget :: "'p RetryConfig option \<Rightarrow> nat" where
  "retryBudget policy = (case policy of None \<Rightarrow> 0 | Some p \<Rightarrow> nat \<lceil>count p\<rceil>)"

text \<open>
  From \<open>s\<close> to \<open>s'\<close> the configuration of the client and its interceptors are the same,
  and the log has grown by calls other than entries to \<^verbatim>\<open>request\<close>.
\<close>

definition proceeds :: "('j, 'p, 'w) System \<Rightarrow> ('j, 'p, 'w) System \<Rightarrow> bool" where
  "proceeds s s' =
     (baseURL s' = baseURL s \<and> defaultHeaders s' = defaultHeaders s \<and>
      defaultTimeout s' = defaultTimeout s \<and> defaultCredentials s' = defaultCredentials s \<and>
      defaultRetry s' = defaultRetry s \<and> requestInterceptors s' = requestInterceptors s \<and>
      responseInterceptors s' = responseInterceptors s \<and>
      (\<exists>evs. trace s' = trace s @ evs \<and> attempts evs = []))"

text \<open>From \<open>s\<close> to \<open>s'\<close> the first new entry to \<^verbatim>\<open>request\<close> is \<^verbatim>\<open>request(url, options)\<close>.\<close>

definition reissues ::
  "('j, 'p, 'w) System \<Rightarrow> ('j, 'p, 'w) System \<Rightarrow> string \<Rightarrow> 'p RequestOptions \<Rightarrow> bool" where
  "reissues s s' url options =
     (\<exists>evs rest. trace s' = trace s @ evs \<and> attempts evs = (url, options) # rest)"

section \<open>Example clients and hosts\<close>

definition noOptions :: "'p RequestOptions" where
  "noOptions =
     \<lparr> http_method = None, headers = [], body = None, params = None, timeout = None,
       credentials = None, retry = None, opt_url = None \<rparr>"

definition noConfig :: "'p HttpClientConfig" where
  "noConfig =
     \<lparr> cfg_baseURL = None, cfg_defaultHeaders = [], cfg_timeout = None,
       cfg_credentials = None, cfg_retry = None \<rparr>"

text \<open>A response without a body.\<close>

definition bodyless :: "int \<Rightarrow> (unit, unit) Response" where
  "bodyless status =
     \<lparr> resp_status = status, resp_headers = [(''content-length'', ''0'')], resp_body = False,
       resp_json = Inr (), resp_text = Inr [] \<rparr>"

text \<open>A transport that answers every call with the same status and no body.\<close>

definition answering :: "int \<Rightarrow> (unit, unit, unit) Host" where
  "answering status =
     \<lparr> fetch = (\<lambda>url fetchOptions w. (Resolves (bodyless status), w)),
       predicate = (\<lambda>p error. False) \<rparr>"

text \<open>A transport on which every call is overtaken by the request's timer.\<close>

definition stalling :: "(unit, unit, unit) Host" where
  "stalling = \<lparr> fetch = (\<lambda>url fetchOptions w. (TimeoutFires, w)), predicate = (\<lambda>p error. False) \<rparr>"

definition plainClient :: "(unit, unit, unit) System" where
  "plainClient = HttpClient_new noConfig ()"

definition apiClient :: "(unit, unit, unit) System" where
  "apiClient = HttpClient_new (noConfig\<lparr>cfg_baseURL := Some ''/api''\<rparr>) ()"

text \<open>A JSON response whose body does not parse, and a failing response with a text body.\<close>

definition malformedJson :: "(unit, unit) Response" where
  "malformedJson =
     \<lparr> resp_status = 200, resp_headers = [(''content-type'', ''application/json; charset=utf-8'')],
       resp_body = True, resp_json = Inl (NativeError ''SyntaxError'' ''Unexpected end of JSON input''),
       resp_text = Inr ''{'' \<rparr>"

definition goneText :: "(unit, unit) Response" where
  "goneText =
     \<lparr> resp_status = 404, resp_headers = [(''content-type'', ''text/plain'')],
       resp_body = True, resp_json = Inl (NativeError ''SyntaxError'' ''Unexpected token''),
       resp_text = Inr ''gone'' \<rparr>"

text \<open>Options with a retry policy of count 1, and of count 2, and nothing else.\<close>

definition oneRetry :: "unit RequestOptions" where
  "oneRetry = noOptions\<lparr>retry := Some \<lparr>count = 1, delay = None, shouldRetry = None\<rparr>\<rparr>"

definition twoRetries :: "unit RequestOptions" where
  "twoRetries = noOptions\<lparr>retry := Some \<lparr>count = 2, delay = None, shouldRetry = None\<rparr>\<rparr>"

text \<open>Options with a retry policy of count 0.5.\<close>

definition halfRetry :: "unit RequestOptions" where
  "halfRetry = noOptions\<lparr>retry := Some \<lparr>count = 1 / 2, delay = None, shouldRetry = None\<rparr>\<rparr>"

text \<open>The record that \<^verbatim>\<open>handleResponse\<close> throws for a body-less response of this status.\<close>

definition failure :: "int \<Rightarrow> unit RequestOptions \<Rightarrow> (unit, unit) HttpRequestError" where
  "failure status config =
     ErrorRecord (''HTTP error! status: '' @ numberToString status) (Some status) (Some None)
       (Some config) None"

text \<open>A response interceptor whose \<^verbatim>\<open>onResponseError\<close> returns an envelope.\<close>

definition fallback :: "(unit, unit) HttpResponse" where
  "fallback = \<lparr> res_data = None, res_status = 200, res_headers = [], res_config = noOptions \<rparr>"

definition recovering :: "(unit, unit, unit) ResponseInterceptor" where
  "recovering =
     \<lparr> res_ident = 7, onResponse = None,
       onResponseError = Some (\<lambda>error w. (Inr (Envelope fallback), w)) \<rparr>"

definition recoveringClient :: "(unit, unit, unit) System" where
  "recoveringClient = addResponseInterceptor recovering plainClient"

text \<open>The options of \<^verbatim>\<open>get("/users", {params: {q: "a b", empty: ""}})\<close>.\<close>

definition search :: "unit RequestOptions" where
  "search = noOptions\<lparr>params := Some [(''q'', PString ''a b''), (''empty'', PString [])]\<rparr>"

text \<open>Two auth interceptors whose \<^verbatim>\<open>getToken\<close> throws.\<close>

definition noToken :: "(unit, unit) HttpRequestError" where
  "noToken = NativeError ''Error'' ''no token''"

definition authClient :: "(unit, unit, unit) System" where
  "authClient =
     addRequestInterceptor (createAuthInterceptor 2 (\<lambda>w. (Inl noToken, w)) (\<lambda>message w. w))
       (addRequestInterceptor (createAuthInterceptor 1 (\<lambda>w. (Inl noToken, w)) (\<lambda>message w. w))
          plainClient)"

text \<open>
  A request interceptor whose transform throws, and one with an error function only; the
  error functions of both return.
\<close>

definition boom :: "(unit, unit) HttpRequestError" where
  "boom = NativeError ''Error'' ''boom''"

definition refusing :: "(unit, unit, unit) RequestInterceptor" where
  "refusing =
     \<lparr> req_ident = 1, onRequest = Some (\<lambda>config w. (Inl boom, w)),
       onRequestError = Some (\<lambda>error w. (Inr None, w)) \<rparr>"

definition watching :: "(unit, unit, unit) RequestInterceptor" where
  "watching =
     \<lparr> req_ident = 2, onRequest = None, onRequestError = Some (\<lambda>error w. (Inr None, w)) \<rparr>"

definition watchedClient :: "(unit, unit, unit) System" where
  "watchedClient = addRequestInterceptor watching (addRequestInterceptor refusing plainClient)"

text \<open>Clients with the logging interceptor, alone and before the recovering one.\<close>

definition loggingClient :: "(unit, unit, unit) System" where
  "loggingClient = addResponseInterceptor (createLoggingInterceptor 3 (\<lambda>message w. w)) plainClient"

definition loggingRecoveringClient :: "(unit, unit, unit) System" where
  "loggingRecoveringClient = addResponseInterceptor recovering loggingClient"

text \<open>
  A response interceptor whose transform throws and whose error function returns an
  envelope.
\<close>

definition rejecting :: "(unit, unit, unit) ResponseInterceptor" where
  "rejecting =
     \<lparr> res_ident = 5, onResponse = Some (\<lambda>response w. (Inl boom, w)),
       onResponseError = Some (\<lambda>error w. (Inr (Envelope fallback), w)) \<rparr>"

definition rejectingClient :: "(unit, unit, unit) System" where
  "rejectingClient = addResponseInterceptor rejecting plainClient"

section \<open>Evaluation\<close>

named_theorems eval_defs

declare
  upperChar_def [eval_defs] toUpperCase_def [eval_defs] whiteSpace_def [eval_defs]
  leadingLength_def [eval_defs] trim_def [eval_defs] decimalDigit_def [eval_defs]
  numberToString_def [eval_defs] hexDigit_def [eval_defs] lowerHexDigit_def [eval_defs]
  jsonEscape_def [eval_defs] JSON_stringify_def [eval_defs] urlencodedKeeps_def [eval_defs]
  urlencodedByte_def [eval_defs] urlencodedString_def [eval_defs]
  URLSearchParams_toString_def [eval_defs] orString_def [eval_defs] orNumber_def [eval_defs]
  createRequestKey_def [eval_defs] keepsParam_def [eval_defs] createURLWithParams_def [eval_defs]
  Response_ok_def [eval_defs] Headers_get_def [eval_defs] spread_def [eval_defs]
  Map_delete_def [eval_defs] HttpClient_new_def [eval_defs] addRequestInterceptor_def [eval_defs]
  addResponseInterceptor_def [eval_defs] cancelRequest_def [eval_defs]
  cancelAllRequests_def [eval_defs] handleResponse_catch_def [eval_defs] parseBody_def [eval_defs]
  handleResponse_def [eval_defs] invoke_def [eval_defs] logEvent_def [eval_defs]
  applyRequestInterceptors_def [eval_defs] applyResponseInterceptors_def [eval_defs]
  clearTimeout_def [eval_defs] fireTimeout_def [eval_defs] request_cleanup_def [eval_defs] abortReason_def [eval_defs]
  effectiveRetry_def [eval_defs] request_begin_def [eval_defs] buildFetchOptions_def [eval_defs]
  request_try_def [eval_defs] translateAbort_def [eval_defs] request_fallthrough_def [eval_defs]
  defaultShouldRetry_def [eval_defs] delay_ms_def [eval_defs] retryEligible_def [eval_defs]
  awaitDelay_def [eval_defs] request.simps [eval_defs]
  retryRequest.simps [eval_defs] get_def [eval_defs] delete_def [eval_defs]
  attempts_def [eval_defs] fetched_def [eval_defs] requestErrorCalls_def [eval_defs]
  responseErrorCalls_def [eval_defs] requestErrorHandlers_def [eval_defs]
  responseErrorHandlers_def [eval_defs] noOptions_def [eval_defs] noConfig_def [eval_defs]
  bodyless_def [eval_defs] answering_def [eval_defs] stalling_def [eval_defs]
  plainClient_def [eval_defs] apiClient_def [eval_defs] malformedJson_def [eval_defs]
  goneText_def [eval_defs] oneRetry_def [eval_defs] twoRetries_def [eval_defs] halfRetry_def [eval_defs]
  failure_def [eval_defs] fallback_def [eval_defs] recovering_def [eval_defs]
  recoveringClient_def [eval_defs] search_def [eval_defs]
  createAuthInterceptor_def [eval_defs] createLoggingInterceptor_def [eval_defs]
  noToken_def [eval_defs] authClient_def [eval_defs] boom_def [eval_defs] refusing_def [eval_defs]
  watching_def [eval_defs] watchedClient_def [eval_defs] loggingClient_def [eval_defs]
  loggingRecoveringClient_def [eval_defs] rejecting_def [eval_defs]
  rejectingClient_def [eval_defs]
  Let_def [eval_defs]

section \<open>How the log grows\<close>

lemma fetched_simps [simp]:
  "fetched [] = []"
  "fetched (ev # evs) = fetchOf ev @ fetched evs"
  "fetched (evs @ evs') = fetched evs @ fetched evs'"
  by (simp_all add: fetched_def)

lemma attempts_simps [simp]:
  "attempts [] = []"
  "attempts (ev # evs) = attemptOf ev @ attempts evs"
  "attempts (evs @ evs') = attempts evs @ attempts evs'"
  by (simp_all add: attempts_def)

lemma trace_invoke: "invoke f a s = (r, s1) \<Longrightarrow> trace s1 = trace s"
  by (auto simp: invoke_def split: prod.splits)

lemma trace_logEvent [simp]: "trace (logEvent ev s) = trace s @ [ev]"
  by (simp add: logEvent_def)

lemma proceeds_refl [simp]: "proceeds s s"
  by (simp add: proceeds_def)

lemma proceeds_trans: "proceeds s s' \<Longrightarrow> proceeds s' s'' \<Longrightarrow> proceeds s s''"
  by (auto simp: proceeds_def)

lemma proceeds_invoke: "invoke f a s = (r, s') \<Longrightarrow> proceeds s s'"
  by (auto simp: invoke_def proceeds_def split: prod.splits)

lemma proceeds_logEvent: "attemptOf ev = [] \<Longrightarrow> proceeds s (logEvent ev s)"
  by (simp add: logEvent_def proceeds_def)

lemma proceeds_call:
  "invoke f a s = (r, s1) \<Longrightarrow> attemptOf ev = [] \<Longrightarrow> proceeds s (logEvent ev s1)"
  by (blast intro: proceeds_trans proceeds_invoke proceeds_logEvent)

lemma proceeds_step:
  "invoke f a s = (r, s1) \<Longrightarrow> attemptOf ev = [] \<Longrightarrow> proceeds (logEvent ev s1) s' \<Longrightarrow> proceeds s s'"
  by (blast intro: proceeds_trans proceeds_call)

lemmas proceeds_steps =
  proceeds_step [where ev = "OnRequestCalled i c out" for i c out, simplified]
  proceeds_step [where ev = "OnRequestErrorCalled i e out" for i e out, simplified]
  proceeds_step [where ev = "OnResponseCalled i c out" for i c out, simplified]
  proceeds_step [where ev = "OnResponseErrorCalled i e out" for i e out, simplified]
  proceeds_step [where ev = "FetchCalled u fo out" for u fo out, simplified]

lemmas proceeds_calls =
  proceeds_call [where ev = "OnRequestCalled i c out" for i c out, simplified]
  proceeds_call [where ev = "OnRequestErrorCalled i e out" for i e out, simplified]
  proceeds_call [where ev = "OnResponseCalled i c out" for i c out, simplified]
  proceeds_call [where ev = "OnResponseErrorCalled i e out" for i e out, simplified]
  proceeds_call [where ev = "FetchCalled u fo out" for u fo out, simplified]

lemma proceeds_cleanup [simp]: "proceeds s (request_cleanup timeoutId requestKey s)"
  by (simp add: proceeds_def request_cleanup_def clearTimeout_def Let_def)

lemma proceeds_fireTimeout [simp]: "proceeds s (fireTimeout timeoutId s)"
  by (simp add: proceeds_def fireTimeout_def split: option.splits prod.splits)

lemma proceeds_delay [simp]: "proceeds s (delay_ms ms s)"
  by (simp add: delay_ms_def proceeds_logEvent)

lemma proceeds_notifyRequestError: "notifyRequestError rs e s = (r, s') \<Longrightarrow> proceeds s s'"
  by (induction rs arbitrary: s)
     (auto split: option.splits prod.splits sum.splits simp: Let_def
        intro: proceeds_calls proceeds_steps)

lemma proceeds_requestChain: "requestChain registered rs c s = (r, s') \<Longrightarrow> proceeds s s'"
  by (induction rs arbitrary: s c)
     (auto split: option.splits prod.splits sum.splits simp: Let_def
        intro: proceeds_calls proceeds_steps dest!: proceeds_notifyRequestError)

lemma proceeds_notifyResponseError: "notifyResponseError rs e s = (r, s') \<Longrightarrow> proceeds s s'"
  by (induction rs arbitrary: s)
     (auto split: option.splits prod.splits sum.splits simp: Let_def
        intro: proceeds_calls proceeds_steps)

lemma proceeds_responseChain: "responseChain registered rs c s = (r, s') \<Longrightarrow> proceeds s s'"
  by (induction rs arbitrary: s c)
     (auto split: option.splits prod.splits sum.splits simp: Let_def
        intro: proceeds_calls proceeds_steps dest!: proceeds_notifyResponseError)

lemma proceeds_recoverLoop: "recoverLoop rs httpError e s = (r, s') \<Longrightarrow> proceeds s s'"
  by (induction rs arbitrary: s e)
     (auto split: option.splits prod.splits sum.splits simp: Let_def
        intro: proceeds_calls proceeds_steps)

lemma proceeds_fallthrough: "request_fallthrough options e s = (r, s') \<Longrightarrow> proceeds s s'"
  by (auto simp: request_fallthrough_def split: prod.splits sum.splits dest: proceeds_recoverLoop)

lemma proceeds_try:
  assumes "request_try host url options controller requestKey timeoutId s = (r, s')"
  shows "proceeds s s'"
proof (cases "applyRequestInterceptors options s")
  case (Pair r1 s1)
  then have p1: "proceeds s s1"
    by (simp add: applyRequestInterceptors_def proceeds_requestChain)
  show ?thesis
  proof (cases r1)
    case (Inl error)
    with assms Pair p1 show ?thesis by (simp add: request_try_def)
  next
    case (Inr interceptedOptions)
    let ?fullUrl = "createURLWithParams (baseURL s1 @ url) (params interceptedOptions)"
    let ?fetchOptions = "buildFetchOptions s1 interceptedOptions controller"
    obtain outcome s2 where f: "invoke (fetch host ?fullUrl) ?fetchOptions s1 = (outcome, s2)"
      by (cases "invoke (fetch host ?fullUrl) ?fetchOptions s1")
    let ?s3 = "logEvent (FetchCalled ?fullUrl ?fetchOptions outcome) s2"
    have p3: "proceeds s ?s3"
      using p1 f by (blast intro: proceeds_trans proceeds_calls)
    show ?thesis
    proof (cases outcome)
      case (Resolves response)
      let ?s4 = "request_cleanup timeoutId requestKey ?s3"
      have p4: "proceeds s ?s4" using p3 by (blast intro: proceeds_trans proceeds_cleanup)
      show ?thesis
      proof (cases "handleResponse response interceptedOptions")
        case (Inl error)
        with assms Pair Inr f Resolves p4 show ?thesis by (simp add: request_try_def Let_def)
      next
        case handled: (Inr handledResponse)
        with assms Pair Inr f Resolves
        have "applyResponseInterceptors handledResponse ?s4 = (r, s')"
          by (simp add: request_try_def Let_def)
        then have "proceeds ?s4 s'"
          by (simp add: applyResponseInterceptors_def proceeds_responseChain)
        with p4 show ?thesis by (rule proceeds_trans)
      qed
    next
      case (Rejects error)
      with assms Pair Inr f p3 show ?thesis by (simp add: request_try_def Let_def)
    next
      case TimeoutFires
      with assms Pair Inr f have "s' = fireTimeout timeoutId ?s3" by (simp add: request_try_def Let_def)
      with p3 show ?thesis by (blast intro: proceeds_trans proceeds_fireTimeout)
    qed
  qed
qed

lemma request_begin_trace:
  "request_begin url options s = (controller, requestKey, timeoutId, s0) \<Longrightarrow>
     trace s0 = trace s @ [RequestCalled url options]"
  by (auto simp: request_begin_def Let_def)


lemma request_step:
  assumes "request_begin url options s = (controller, requestKey, timeoutId, s0)"
    and "request_try host url options controller requestKey timeoutId s0 = (r1, s1)"
  shows "request host url options s =
     (case r1 of
        Inr response \<Rightarrow> (Inr (Envelope response), s1)
      | Inl error \<Rightarrow>
          (case effectiveRetry options s of
             None \<Rightarrow> request_fallthrough options error (request_cleanup timeoutId requestKey s1)
           | Some policy \<Rightarrow>
               if count policy > 0
               then retryRequest host url options error (count policy) policy
                      (request_cleanup timeoutId requestKey s1)
               else request_fallthrough options error (request_cleanup timeoutId requestKey s1)))"
  using assms by (simp add: request.simps Let_def split: sum.splits)

lemma proceeds_awaitDelay [simp]: "proceeds s (awaitDelay retryConfig s)"
  by (simp add: awaitDelay_def split: option.splits)

lemma retryRequest_step:
  "retryRequest host url options error retryCount retryConfig s =
     (if 0 < retryCount \<and> retryEligible host retryConfig error
      then request host url (options\<lparr>retry := Some (retryConfig\<lparr>count := retryCount - 1\<rparr>)\<rparr>)
             (awaitDelay retryConfig s)
      else (Inl error, s))"
  by (simp add: retryRequest.simps retryEligible_def awaitDelay_def Let_def)

lemma request_attempts:
  "request host url options s = (r, s') \<Longrightarrow>
   \<exists>k evs. k \<le> retryBudget (effectiveRetry options s) \<and> trace s' = trace s @ evs \<and>
     attempts evs = (url, options) #
       map (\<lambda>i. (url, options\<lparr>retry :=
              map_option (\<lambda>p. p\<lparr>count := count p - 1 - of_nat i\<rparr>) (effectiveRetry options s)\<rparr>)) [0..<k]"
proof (induction "retryBudget (effectiveRetry options s)" arbitrary: options s rule: less_induct)
  case less
  obtain controller requestKey timeoutId s0 where
    b: "request_begin url options s = (controller, requestKey, timeoutId, s0)"
    by (cases "request_begin url options s")
  obtain r1 s1 where t: "request_try host url options controller requestKey timeoutId s0 = (r1, s1)"
    by (cases "request_try host url options controller requestKey timeoutId s0")
  let ?s2 = "request_cleanup timeoutId requestKey s1"
  from proceeds_try [OF t] obtain evs1 where
    e1: "trace s1 = trace s0 @ evs1" "attempts evs1 = []"
    by (auto simp: proceeds_def)
  have tr2: "trace ?s2 = trace s @ RequestCalled url options # evs1"
    using e1 request_begin_trace [OF b] by (simp add: request_cleanup_def clearTimeout_def Let_def)
  note step = request_step [OF b t]
  have quiet: "\<exists>k evs. k \<le> retryBudget (effectiveRetry options s) \<and> trace s' = trace s @ evs \<and>
     attempts evs = (url, options) #
       map (\<lambda>i. (url, options\<lparr>retry :=
              map_option (\<lambda>p. p\<lparr>count := count p - 1 - of_nat i\<rparr>) (effectiveRetry options s)\<rparr>)) [0..<k]"
    if "proceeds ?s2 s'"
  proof -
    from that obtain evs2 where "trace s' = trace ?s2 @ evs2" "attempts evs2 = []"
      by (auto simp: proceeds_def)
    with tr2 e1 show ?thesis
      by (intro exI [of _ 0] exI [of _ "RequestCalled url options # evs1 @ evs2"]) simp
  qed
  show ?case
  proof (cases r1)
    case (Inr response)
    with step less.prems have "s' = s1" by simp
    then have "proceeds ?s2 ?s2 \<and> trace s' = trace ?s2"
      by (simp add: request_cleanup_def clearTimeout_def Let_def)
    with tr2 e1 show ?thesis
      by (intro exI [of _ 0] exI [of _ "RequestCalled url options # evs1"]) simp
  next
    case (Inl error)
    show ?thesis
    proof (cases "effectiveRetry options s")
      case None
      with step Inl less.prems have "request_fallthrough options error ?s2 = (r, s')" by simp
      then show ?thesis by (intro quiet proceeds_fallthrough)
    next
      case (Some policy)
      show ?thesis
      proof (cases "0 < count policy \<and> retryEligible host policy error")
        case False
        with step Inl Some less.prems
        have "request_fallthrough options error ?s2 = (r, s') \<or> s' = ?s2"
          by (auto simp: retryRequest_step split: if_splits)
        then show ?thesis
        proof
          assume "request_fallthrough options error ?s2 = (r, s')"
          then show ?thesis by (intro quiet proceeds_fallthrough)
        next
          assume "s' = ?s2"
          then show ?thesis by (intro quiet) simp
        qed
      next
        case True
        let ?options' = "options\<lparr>retry := Some (policy\<lparr>count := count policy - 1\<rparr>)\<rparr>"
        let ?sd = "awaitDelay policy ?s2"
        from step Inl Some True less.prems
        have again: "request host url ?options' ?sd = (r, s')"
          by (simp add: retryRequest_step)
        have eff: "effectiveRetry ?options' ?sd = Some (policy\<lparr>count := count policy - 1\<rparr>)"
          by (simp add: effectiveRetry_def)
        have "retryBudget (effectiveRetry ?options' ?sd) < retryBudget (effectiveRetry options s)"
          using True Some by (simp add: eff retryBudget_def)
        from less.hyps [OF this again] obtain k evs where
          ih: "k \<le> retryBudget (effectiveRetry ?options' ?sd)" "trace s' = trace ?sd @ evs"
            "attempts evs = (url, ?options') #
               map (\<lambda>i. (url, ?options'\<lparr>retry :=
                 map_option (\<lambda>p. p\<lparr>count := count p - 1 - of_nat i\<rparr>) (effectiveRetry ?options' ?sd)\<rparr>)) [0..<k]"
          by blast
        obtain evd where d: "trace ?sd = trace ?s2 @ evd" "attempts evd = []"
          using proceeds_awaitDelay [of ?s2 policy] by (auto simp: proceeds_def)
        have "Suc k \<le> retryBudget (effectiveRetry options s)"
          using ih(1) True Some by (simp add: eff retryBudget_def) linarith
        moreover have "trace s' = trace s @ (RequestCalled url options # evs1 @ evd @ evs)"
          using ih(2) d tr2 by simp
        moreover have "attempts (RequestCalled url options # evs1 @ evd @ evs) = (url, options) #
           map (\<lambda>i. (url, options\<lparr>retry :=
              map_option (\<lambda>p. p\<lparr>count := count p - 1 - of_nat i\<rparr>) (effectiveRetry options s)\<rparr>)) [0..<Suc k]"
          using ih(3) e1 d Some by (simp add: eff map_upt_Suc del: upt_Suc) 
        ultimately show ?thesis by blast
      qed
    qed
  qed
qed

lemma request_grows:
  "request host url options s = (r, s') \<Longrightarrow> \<exists>evs. trace s' = trace s @ evs"
  using request_attempts by blast

section \<open>Retry eligibility\<close>

lemma reissues_request:
  assumes "request host url options s0 = (r, s')" and "proceeds s s0"
  shows "reissues s s' url options"
proof -
  from request_attempts [OF assms(1)] obtain evs rest where
    "trace s' = trace s0 @ evs" "attempts evs = (url, options) # rest"
    by blast
  moreover from assms(2) obtain evs0 where "trace s0 = trace s @ evs0" "attempts evs0 = []"
    by (auto simp: proceeds_def)
  ultimately have "trace s' = trace s @ (evs0 @ evs) \<and> attempts (evs0 @ evs) = (url, options) # rest"
    by simp
  then show ?thesis unfolding reissues_def by blast
qed

lemma not_reissues_same [simp]: "\<not> reissues s s url options"
  by (auto simp: reissues_def attempts_def)

text \<open>
  Claim C7, amended. In \<^verbatim>\<open>retryRequest\<close> with a remaining count above 0, the request
  is issued again (with the count less 1) exactly when the Error Record is eligible: under
  a policy without \<^verbatim>\<open>shouldRetry\<close>, when its status is absent, is 0, or is at least
  500; under a policy with \<^verbatim>\<open>shouldRetry\<close>, when that function says so. When it is not
  issued again, the Error Record is thrown and nothing else happens.
\<close>

theorem retry_eligibility:
  assumes "0 < retryCount"
  shows "reissues s (snd (retryRequest host url options error retryCount retryConfig s)) url
           (options\<lparr>retry := Some (retryConfig\<lparr>count := retryCount - 1\<rparr>)\<rparr>) =
         (case shouldRetry retryConfig of
            None \<Rightarrow> (case error_status error of
                        None \<Rightarrow> True
                      | Some status \<Rightarrow> status = 0 \<or> 500 \<le> status)
          | Some p \<Rightarrow> predicate host p error) \<and>
         (\<not> reissues s (snd (retryRequest host url options error retryCount retryConfig s)) url
              (options\<lparr>retry := Some (retryConfig\<lparr>count := retryCount - 1\<rparr>)\<rparr>) \<longrightarrow>
            retryRequest host url options error retryCount retryConfig s = (Inl error, s))"
proof -
  let ?options' = "options\<lparr>retry := Some (retryConfig\<lparr>count := retryCount - 1\<rparr>)\<rparr>"
  have el: "retryEligible host retryConfig error =
         (case shouldRetry retryConfig of
            None \<Rightarrow> (case error_status error of
                        None \<Rightarrow> True
                      | Some status \<Rightarrow> status = 0 \<or> 500 \<le> status)
          | Some p \<Rightarrow> predicate host p error)"
    by (auto simp: retryEligible_def defaultShouldRetry_def split: option.splits)
  show ?thesis
  proof (cases "retryEligible host retryConfig error")
    case True
    obtain r s' where again: "request host url ?options' (awaitDelay retryConfig s) = (r, s')"
      by (cases "request host url ?options' (awaitDelay retryConfig s)")
    then have "reissues s s' url ?options'"
      by (rule reissues_request) simp
    with True assms again el show ?thesis by (simp add: retryRequest_step)
  next
    case False
    with assms el show ?thesis by (simp add: retryRequest_step)
  qed
qed

text \<open>
  A status of 0 under the default rule is retried; a status of 404 is thrown back at once.
\<close>

theorem retry_eligibility_witness:
  "reissues plainClient (snd (retryRequest (answering 0) ''/items'' oneRetry (failure 0 oneRetry) 1
       \<lparr>count = 1, delay = None, shouldRetry = None\<rparr> plainClient)) ''/items''
     (oneRetry\<lparr>retry := Some \<lparr>count = 0, delay = None, shouldRetry = None\<rparr>\<rparr>) \<and>
   retryRequest (answering 404) ''/items'' oneRetry (failure 404 oneRetry) 1
       \<lparr>count = 1, delay = None, shouldRetry = None\<rparr> plainClient =
     (Inl (failure 404 oneRetry), plainClient)"
  using retry_eligibility [of 1 plainClient "answering 0" "''/items''" oneRetry "failure 0 oneRetry"
      "\<lparr>count = 1, delay = None, shouldRetry = None\<rparr>"]
    retry_eligibility [of 1 plainClient "answering 404" "''/items''" oneRetry "failure 404 oneRetry"
      "\<lparr>count = 1, delay = None, shouldRetry = None\<rparr>"]
  by (simp add: failure_def)

text \<open>
  The claim as stated fails at status 0, the status of an opaque response: the status is
  present and below 500, and the request with a count of 1 is attempted twice.
\<close>

theorem status_zero_is_retried:
  "handleResponse (bodyless 0) oneRetry = Inl (failure 0 oneRetry) \<and>
   error_status (failure 0 oneRetry) = Some 0 \<and>
   map (\<lambda>(u, opts). map_option count (retry opts))
     (attempts (trace (snd (request (answering 0) ''/items'' oneRetry plainClient)))) =
     [Some 1, Some 0]"
  by (simp add: eval_defs)

section \<open>The order of retry, response-error chain and abort translation\<close>

text \<open>
  Claim C4, amended. When the \<^verbatim>\<open>try\<close> block of an attempt fails, the retry decision
  comes first. With no policy, or a count of 0 or less, the failure goes to the loop over
  the response-error functions, then through the abort translation, and is thrown. With
  a count above 0 and an eligible Error Record the request is issued again after the
  delay. With a count above 0 and an Error Record that is not eligible, the failure is
  thrown at once: neither the response-error functions nor the abort translation see it.
\<close>

theorem retry_then_fallthrough:
  assumes "request_begin url options s = (controller, requestKey, timeoutId, s0)"
    and "request_try host url options controller requestKey timeoutId s0 = (Inl error, s1)"
  shows "request host url options s =
      (let s2 = request_cleanup timeoutId requestKey s1;
           fallthrough =
             (case recoverLoop (responseInterceptors s2) error error s2 of
                (Inr returned, s3) \<Rightarrow> (Inr returned, s3)
              | (Inl thrown, s3) \<Rightarrow> (Inl (translateAbort options thrown), s3))
       in case effectiveRetry options s of
            None \<Rightarrow> fallthrough
          | Some policy \<Rightarrow>
              if count policy \<le> 0 then fallthrough
              else if retryEligible host policy error
              then request host url
                     (options\<lparr>retry := Some (policy\<lparr>count := count policy - 1\<rparr>)\<rparr>)
                     (awaitDelay policy s2)
              else (Inl error, s2))"
  using request_step [OF assms]
  by (auto simp: retryRequest_step request_fallthrough_def Let_def split: option.splits)

text \<open>
  A 404 under a policy of count 1 is thrown as it is, although the client has a
  response-error function that recovers; without a policy that function's envelope is the
  result.
\<close>

theorem retry_then_fallthrough_witness:
  "fst (request (answering 404) ''/items'' oneRetry recoveringClient) = Inl (failure 404 oneRetry) \<and>
   fst (request (answering 404) ''/items'' noOptions recoveringClient) = Inr (Envelope fallback)"
proof -
  obtain c1 k1 t1 s01 where
    b1: "request_begin ''/items'' oneRetry recoveringClient = (c1, k1, t1, s01)"
    by (cases "request_begin ''/items'' oneRetry recoveringClient")
  have t1: "request_try (answering 404) ''/items'' oneRetry c1 k1 t1 s01 =
      (Inl (failure 404 oneRetry), snd (request_try (answering 404) ''/items'' oneRetry c1 k1 t1 s01))"
    using b1 by (auto simp: eval_defs)
  obtain c2 k2 t2 s02 where
    b2: "request_begin ''/items'' noOptions recoveringClient = (c2, k2, t2, s02)"
    by (cases "request_begin ''/items'' noOptions recoveringClient")
  have t2: "request_try (answering 404) ''/items'' noOptions c2 k2 t2 s02 =
      (Inl (failure 404 noOptions), snd (request_try (answering 404) ''/items'' noOptions c2 k2 t2 s02))"
    using b2 by (auto simp: eval_defs)
  have "fst (request (answering 404) ''/items'' oneRetry recoveringClient) = Inl (failure 404 oneRetry)"
    using retry_then_fallthrough [OF b1 t1]
    by (simp add: effectiveRetry_def oneRetry_def noOptions_def retryEligible_def
        defaultShouldRetry_def failure_def Let_def)
  moreover
  have "fst (request (answering 404) ''/items'' noOptions recoveringClient) = Inr (Envelope fallback)"
    using retry_then_fallthrough [OF b2 t2] b2
    by (auto simp: eval_defs)
  ultimately show ?thesis by simp
qed

text \<open>
  The claim as stated fails for the failure that the eligibility rule rejects: the 404
  under a policy of count 1 is not retried, the one registered response-error function is
  never called, and the caller gets the failure that this function would have turned into
  an envelope.
\<close>

theorem ineligible_failure_skips_chain:
  "attempts (trace (snd (request (answering 404) ''/items'' oneRetry recoveringClient))) =
     [(''/items'', oneRetry)] \<and>
   responseErrorHandlers (responseInterceptors recoveringClient) = [7] \<and>
   responseErrorCalls (trace (snd (request (answering 404) ''/items'' oneRetry recoveringClient))) = [] \<and>
   fst (request (answering 404) ''/items'' oneRetry recoveringClient) = Inl (failure 404 oneRetry) \<and>
   fst (request_fallthrough oneRetry (failure 404 oneRetry) recoveringClient) = Inr (Envelope fallback)"
  by (simp add: eval_defs)

section \<open>Query parameters\<close>

lemma joinWith_nonempty:
  "xs \<noteq> [] \<Longrightarrow> \<forall>x \<in> set xs. x \<noteq> [] \<Longrightarrow> joinWith sep xs \<noteq> []"
  by (induction sep xs rule: joinWith.induct) auto

lemma queryString_empty: "URLSearchParams_toString entries = [] \<longleftrightarrow> entries = []"
proof (cases entries)
  case Nil
  then show ?thesis by (simp add: URLSearchParams_toString_def)
next
  case (Cons e es)
  have "joinWith ''&'' (map (\<lambda>(k, v). urlencodedString k @ ''='' @ urlencodedString v) entries) \<noteq> []"
    by (rule joinWith_nonempty) (auto simp: Cons split: prod.splits)
  then show ?thesis by (simp add: URLSearchParams_toString_def Cons)
qed

lemma hexDigit_kept: "n < 16 \<Longrightarrow> urlencodedKeeps (hexDigit n)"
proof -
  have all: "list_all (\<lambda>n. urlencodedKeeps (hexDigit n)) [0..<16]"
    by code_simp
  assume "n < 16"
  then have "n \<in> set [0..<16]" by simp
  with all show ?thesis unfolding list_all_iff by blast
qed

lemma urlencodedByte_chars:
  "c' \<in> set (urlencodedByte c) \<Longrightarrow> urlencodedKeeps c' \<or> c' = CHR ''%'' \<or> c' = CHR ''+''"
proof -
  have "(of_char c :: nat) div 16 < 16" "(of_char c :: nat) mod 16 < 16"
    using nat_of_char_less_256 [of c] by (simp_all add: less_mult_imp_div_less)
  then have "urlencodedKeeps (hexDigit (of_char c div 16))" "urlencodedKeeps (hexDigit (of_char c mod 16))"
    by (simp_all add: hexDigit_kept)
  moreover assume "c' \<in> set (urlencodedByte c)"
  ultimately show ?thesis
    by (auto simp: urlencodedByte_def split: if_splits)
qed

lemma urlencodedString_chars:
  "c' \<in> set (urlencodedString s) \<Longrightarrow> urlencodedKeeps c' \<or> c' = CHR ''%'' \<or> c' = CHR ''+''"
  by (auto simp: urlencodedString_def dest: urlencodedByte_chars)

lemma createURLWithParams_kept:
  "createURLWithParams url (Some entries) =
     (let kept = filter (\<lambda>(k, v). v \<noteq> PUndefined \<and> v \<noteq> PNull \<and> trim (String v) \<noteq> []) entries
      in if kept = [] then url
         else url @ (if includesStr url ''?'' then ''&'' else ''?'') @
              joinWith ''&'' (map (\<lambda>(k, v). urlencodedString k @ ''='' @ urlencodedString (String v)) kept))"
  unfolding createURLWithParams_def Let_def keepsParam_def option.case queryString_empty
  by (simp add: URLSearchParams_toString_def comp_def case_prod_unfold)

lemma request_try_fetch:
  assumes "applyRequestInterceptors options s = (Inr interceptedOptions, s1)"
    and "request_try host url options controller requestKey timeoutId s = (r, s')"
  shows "\<exists>outcome s2.
     invoke (fetch host (createURLWithParams (baseURL s1 @ url) (params interceptedOptions)))
       (buildFetchOptions s1 interceptedOptions controller) s1 = (outcome, s2) \<and>
     proceeds (logEvent (FetchCalled (createURLWithParams (baseURL s1 @ url) (params interceptedOptions))
       (buildFetchOptions s1 interceptedOptions controller) outcome) s2) s'"
proof -
  let ?fullUrl = "createURLWithParams (baseURL s1 @ url) (params interceptedOptions)"
  let ?fetchOptions = "buildFetchOptions s1 interceptedOptions controller"
  obtain outcome s2 where f: "invoke (fetch host ?fullUrl) ?fetchOptions s1 = (outcome, s2)"
    by (cases "invoke (fetch host ?fullUrl) ?fetchOptions s1")
  let ?s3 = "logEvent (FetchCalled ?fullUrl ?fetchOptions outcome) s2"
  have "proceeds ?s3 s'"
  proof (cases outcome)
    case (Resolves response)
    let ?s4 = "request_cleanup timeoutId requestKey ?s3"
    show ?thesis
    proof (cases "handleResponse response interceptedOptions")
      case (Inl error)
      with assms f Resolves have "s' = ?s4" by (simp add: request_try_def Let_def)
      then show ?thesis by simp
    next
      case handled: (Inr handledResponse)
      with assms f Resolves
      have "applyResponseInterceptors handledResponse ?s4 = (r, s')"
        by (simp add: request_try_def Let_def)
      then have "proceeds ?s4 s'"
        by (simp add: applyResponseInterceptors_def proceeds_responseChain)
      then show ?thesis by (blast intro: proceeds_trans proceeds_cleanup)
    qed
  next
    case (Rejects error)
    with assms f have "s' = ?s3" by (simp add: request_try_def Let_def)
    then show ?thesis by simp
  next
    case TimeoutFires
    with assms f have "s' = fireTimeout timeoutId ?s3" by (simp add: request_try_def Let_def)
    then show ?thesis by simp
  qed
  with f show ?thesis by blast
qed

lemma request_after_try:
  assumes b: "request_begin url options s = (controller, requestKey, timeoutId, s0)"
    and t: "request_try host url options controller requestKey timeoutId s0 = (r1, s1)"
    and g: "request host url options s = (r, s')"
  shows "\<exists>evs. trace s' = trace s1 @ evs"
proof (cases r1)
  case (Inr response)
  with request_step [OF b t] g show ?thesis by simp
next
  case (Inl error)
  let ?s2 = "request_cleanup timeoutId requestKey s1"
  have c: "trace ?s2 = trace s1" by (simp add: request_cleanup_def clearTimeout_def Let_def)
  from request_step [OF b t] g Inl
  consider "request_fallthrough options error ?s2 = (r, s')"
    | policy where "retryRequest host url options error (count policy) policy ?s2 = (r, s')"
    by (auto split: option.splits if_splits)
  then show ?thesis
  proof cases
    case 1
    from proceeds_fallthrough [OF this] c show ?thesis by (auto simp: proceeds_def)
  next
    case 2
    then consider "s' = ?s2"
      | "request host url (options\<lparr>retry := Some (policy\<lparr>count := count policy - 1\<rparr>)\<rparr>)
           (awaitDelay policy ?s2) = (r, s')"
      by (auto simp: retryRequest_step split: if_splits)
    then show ?thesis
    proof cases
      case 1
      with c show ?thesis by simp
    next
      case 2
      from request_grows [OF this] obtain evs where "trace s' = trace (awaitDelay policy ?s2) @ evs"
        by blast
      moreover from proceeds_awaitDelay [of ?s2 policy] obtain evd where
        "trace (awaitDelay policy ?s2) = trace ?s2 @ evd" by (auto simp: proceeds_def)
      ultimately show ?thesis using c by simp
    qed
  qed
qed

lemma get_url:
  assumes "baseURL s = ''/api''" and "requestInterceptors s = []"
    and "params options = Some [(''q'', PString ''a b''), (''empty'', PString [])]"
  shows "\<exists>fetchOptions outcome more.
     trace (snd (get host ''/users'' options s)) =
       trace s @ RequestCalled ''/users'' (options\<lparr>http_method := Some ''GET''\<rparr>) #
         FetchCalled ''/api/users?q=a+b'' fetchOptions outcome # more"
proof -
  let ?options = "options\<lparr>http_method := Some ''GET''\<rparr>"
  obtain r s' where g: "request host ''/users'' ?options s = (r, s')"
    by (cases "request host ''/users'' ?options s")
  obtain controller requestKey timeoutId s0 where
    b: "request_begin ''/users'' ?options s = (controller, requestKey, timeoutId, s0)"
    by (cases "request_begin ''/users'' ?options s")
  obtain r1 s1 where t: "request_try host ''/users'' ?options controller requestKey timeoutId s0 = (r1, s1)"
    by (cases "request_try host ''/users'' ?options controller requestKey timeoutId s0")
  have s0: "baseURL s0 = ''/api''" "requestInterceptors s0 = []"
    "trace s0 = trace s @ [RequestCalled ''/users'' ?options]"
    using b assms by (auto simp: request_begin_def logEvent_def Let_def)
  then have "applyRequestInterceptors ?options s0 = (Inr ?options, s0)"
    by (simp add: applyRequestInterceptors_def)
  from request_try_fetch [OF this t] obtain outcome s2 where
    f: "invoke (fetch host (createURLWithParams (baseURL s0 @ ''/users'') (params ?options)))
          (buildFetchOptions s0 ?options controller) s0 = (outcome, s2)" and
    p: "proceeds (logEvent (FetchCalled (createURLWithParams (baseURL s0 @ ''/users'') (params ?options))
          (buildFetchOptions s0 ?options controller) outcome) s2) s1"
    by blast
  have u: "createURLWithParams (baseURL s0 @ ''/users'') (params ?options) = ''/api/users?q=a+b''"
    using assms(3) s0 by (simp add: eval_defs)
  from p obtain evs1 where "trace s1 = trace s2 @ FetchCalled ''/api/users?q=a+b''
      (buildFetchOptions s0 ?options controller) outcome # evs1"
    unfolding u by (auto simp: proceeds_def)
  moreover from request_after_try [OF b t g] obtain evs2 where "trace s' = trace s1 @ evs2"
    by blast
  moreover have "trace s2 = trace s @ [RequestCalled ''/users'' ?options]"
    using trace_invoke [OF f] s0 by simp
  ultimately show ?thesis using g unfolding get_def by simp
qed

text \<open>
  Claim C3, amended. \<^verbatim>\<open>createURLWithParams\<close> leaves out every parameter whose value is
  \<^verbatim>\<open>undefined\<close>, \<^verbatim>\<open>null\<close>, or blank after trimming, and appends the others as
  \<^verbatim>\<open>name=value\<close> joined by \<^verbatim>\<open>&\<close>, after \<^verbatim>\<open>?\<close>, or after \<^verbatim>\<open>&\<close> when the URL has a
  \<^verbatim>\<open>?\<close> already. Names and values are encoded as \<^verbatim>\<open>URLSearchParams\<close> does it: what
  comes out is made of ASCII letters, digits, \<^verbatim>\<open>*-._\<close>, \<^verbatim>\<open>%\<close> and \<^verbatim>\<open>+\<close>, and a space
  becomes \<^verbatim>\<open>+\<close>. On a client with base URL \<^verbatim>\<open>/api\<close> and no request interceptor,
  \<^verbatim>\<open>get("/users", {params: {q: "a b", empty: ""}})\<close> calls the transport first with
  \<^verbatim>\<open>/api/users?q=a+b\<close>, whatever the transport.
\<close>

theorem query_serialization:
  "createURLWithParams url (Some entries) =
     (let kept = filter (\<lambda>(k, v). v \<noteq> PUndefined \<and> v \<noteq> PNull \<and> trim (String v) \<noteq> []) entries
      in if kept = [] then url
         else url @ (if includesStr url ''?'' then ''&'' else ''?'') @
              joinWith ''&'' (map (\<lambda>(k, v). urlencodedString k @ ''='' @ urlencodedString (String v)) kept)) \<and>
   (\<forall>c \<in> set (urlencodedString str). urlencodedKeeps c \<or> c = CHR ''%'' \<or> c = CHR ''+'') \<and>
   urlencodedString ''a b'' = ''a+b'' \<and>
   (baseURL s = ''/api'' \<and> requestInterceptors s = [] \<and>
    params options = Some [(''q'', PString ''a b''), (''empty'', PString [])] \<longrightarrow>
      (\<exists>fetchOptions outcome more.
         trace (snd (get host ''/users'' options s)) =
           trace s @ RequestCalled ''/users'' (options\<lparr>http_method := Some ''GET''\<rparr>) #
             FetchCalled ''/api/users?q=a+b'' fetchOptions outcome # more))"
  using createURLWithParams_kept [of url entries] urlencodedString_chars [of _ str]
    get_url [of s options host]
  by (auto simp: urlencodedString_def urlencodedByte_def urlencodedKeeps_def)

text \<open>
  A URL with a query string already, blank, absent and null values, a number, a boolean,
  and a name and a value with bytes to encode; and the request of the claim.
\<close>

theorem query_serialization_witness:
  "createURLWithParams ''/api/users?page=2''
     (Some [(''blank'', PString ''  ''), (''n'', PNumber 7), (''u'', PUndefined), (''z'', PNull),
            (''on'', PBoolean True), (''k y'', PString ''50%/x'')]) =
     ''/api/users?page=2&n=7&on=true&k+y=50%25%2Fx'' \<and>
   list_all (\<lambda>c. urlencodedKeeps c \<or> c = CHR ''%'' \<or> c = CHR ''+'') (urlencodedString ''50%/x'') \<and>
   map fst (fetched (trace (snd (get (answering 200) ''/users'' search apiClient)))) =
     [''/api/users?q=a+b'']"
proof -
  have "list_all (\<lambda>c. urlencodedKeeps c \<or> c = CHR ''%'' \<or> c = CHR ''+'') (urlencodedString ''50%/x'')"
    using query_serialization [of "''/api/users''" "[]" "''50%/x''" apiClient search "answering 200"]
    unfolding list_all_iff by blast
  moreover have "createURLWithParams ''/api/users?page=2''
     (Some [(''blank'', PString ''  ''), (''n'', PNumber 7), (''u'', PUndefined), (''z'', PNull),
            (''on'', PBoolean True), (''k y'', PString ''50%/x'')]) =
     ''/api/users?page=2&n=7&on=true&k+y=50%25%2Fx''"
    by (simp add: eval_defs)
  moreover have "map fst (fetched (trace (snd (get (answering 200) ''/users'' search apiClient)))) =
     [''/api/users?q=a+b'']"
    by (simp add: eval_defs)
  ultimately show ?thesis by blast
qed

text \<open>The claim as stated fails at its example: the transport does not get \<^verbatim>\<open>a%20b\<close>.\<close>

theorem space_is_not_percent20:
  "map fst (fetched (trace (snd (get (answering 200) ''/users'' search apiClient)))) =
     [''/api/users?q=a+b''] \<and>
   map fst (fetched (trace (snd (get (answering 200) ''/users'' search apiClient)))) \<noteq>
     [''/api/users?q=a%20b'']"
  by (simp add: eval_defs)

section \<open>The response normalizer\<close>

text \<open>
  Claim C9. \<^verbatim>\<open>handleResponse\<close> on a response whose body is empty (no body, or a
  \<^verbatim>\<open>content-length\<close> of \<^verbatim>\<open>0\<close>) parses nothing, and with a status in the success range
  returns the envelope with \<^verbatim>\<open>data\<close> null and the status as it came. When
  parsing throws a \<^verbatim>\<open>SyntaxError\<close> it throws the record \<^verbatim>\<open>Invalid response format\<close>
  with null data and the parse failure as cause, whatever the status. When parsing
  returns and the status is outside the success range it throws the record that carries
  the parsed data, the status and the configuration.
\<close>

theorem handleResponse_cases:
  "((\<not> resp_body response \<or> Headers_get (resp_headers response) ''content-length'' = Some ''0'') \<longrightarrow>
      parseBody response = Inr None \<and>
      (Response_ok response \<longrightarrow>
         handleResponse response config =
           Inr \<lparr> res_data = None, res_status = resp_status response,
                 res_headers = resp_headers response, res_config = config \<rparr>)) \<and>
   (parseBody response = Inl error \<and> isErrorNamed ''SyntaxError'' error \<longrightarrow>
      handleResponse response config =
        Inl (ErrorRecord ''Invalid response format'' (Some (resp_status response)) (Some None)
               (Some config) (Some error))) \<and>
   (parseBody response = Inr data \<and> \<not> Response_ok response \<longrightarrow>
      handleResponse response config =
        Inl (ErrorRecord (''HTTP error! status: '' @ numberToString (resp_status response))
               (Some (resp_status response)) (Some data) (Some config) None))"
  by (simp add: handleResponse_def handleResponse_catch_def parseBody_def)

text \<open>
  The three cases at work: a 204 without a body, a 200 whose JSON does not parse, and a
  404 with a text body.
\<close>

theorem handleResponse_cases_witness:
  "handleResponse (bodyless 204) (noOptions :: unit RequestOptions) =
     Inr \<lparr> res_data = None, res_status = 204, res_headers = [(''content-length'', ''0'')],
           res_config = noOptions \<rparr> \<and>
   handleResponse malformedJson (noOptions :: unit RequestOptions) =
     Inl (ErrorRecord ''Invalid response format'' (Some 200) (Some None) (Some noOptions)
            (Some (NativeError ''SyntaxError'' ''Unexpected end of JSON input''))) \<and>
   handleResponse goneText (noOptions :: unit RequestOptions) =
     Inl (ErrorRecord ''HTTP error! status: 404'' (Some 404) (Some (Some (TextValue ''gone'')))
            (Some noOptions) None)"
proof -
  have empty: "\<not> resp_body (bodyless 204)" and ok: "Response_ok (bodyless 204)"
    by (simp_all add: bodyless_def Response_ok_def)
  have broken: "parseBody malformedJson = Inl (NativeError ''SyntaxError'' ''Unexpected end of JSON input'')"
    by (simp add: malformedJson_def parseBody_def Headers_get_def)
  have failing: "parseBody goneText = Inr (Some (TextValue ''gone''))" "\<not> Response_ok goneText"
    by (simp_all add: goneText_def parseBody_def Headers_get_def Response_ok_def)
  show ?thesis
    using handleResponse_cases [where response = "bodyless 204" and config = noOptions] empty ok
      handleResponse_cases [where response = malformedJson and config = noOptions] broken
      handleResponse_cases [where response = goneText and config = noOptions] failing
    by (simp add: bodyless_def malformedJson_def goneText_def numberToString_def decimalDigit_def)
qed

section \<open>The cancellation registry\<close>

text \<open>
  Claim C1, for which the code falls short. \<^verbatim>\<open>request\<close> creates the controller and
  computes the key, but no statement of the class calls \<^verbatim>\<open>pendingRequests.set\<close>: the
  state that the statements before the \<^verbatim>\<open>try\<close> leave has the registry it started with.
\<close>

lemma request_begin_registry:
  "request_begin url options s = (controller, requestKey, timeoutId, s0) \<Longrightarrow>
     pendingRequests s0 = pendingRequests s"
  by (auto simp: request_begin_def logEvent_def Let_def)

text \<open>
  On a new client, a request to \<^verbatim>\<open>/items\<close> is begun: the registry is empty, and
  \<^verbatim>\<open>cancelRequest\<close> with the request's key aborts nothing.
\<close>

theorem request_registers_nothing:
  "(case request_begin ''/items'' noOptions plainClient of
      (controller, requestKey, timeoutId, s0) \<Rightarrow>
        requestKey = ''GET-/items-same-origin-'' @ [CHR 0x22, CHR 0x22] \<and>
        pendingRequests s0 = [] \<and>
        map_of (pendingRequests s0) requestKey = None \<and>
        aborted (cancelRequest requestKey s0) = [])"
  by (simp add: eval_defs)

section \<open>The body of GET and HEAD\<close>

text \<open>A method that is \<^verbatim>\<open>GET\<close> or \<^verbatim>\<open>HEAD\<close> in upper case sends no body.\<close>

lemma named_GET_HEAD_without_body:
  "http_method interceptedOptions = Some m \<Longrightarrow> toUpperCase m \<in> {''GET'', ''HEAD''} \<Longrightarrow>
     body (buildFetchOptions s interceptedOptions controller) = None"
  by (auto simp: buildFetchOptions_def orString_def)

text \<open>
  Claim C2, for which the code falls short. With no method given, which the transport and
  \<^verbatim>\<open>createRequestKey\<close> take as \<^verbatim>\<open>GET\<close>, the test of \<^verbatim>\<open>request\<close> compares the empty
  string with \<^verbatim>\<open>GET\<close> and \<^verbatim>\<open>HEAD\<close>, and the body goes to the transport: here the one
  transport call of a request with body \<^verbatim>\<open>payload\<close> and no method.
\<close>

theorem default_method_keeps_body:
  "map (\<lambda>(url, fetchOptions). (url, http_method fetchOptions, body fetchOptions))
     (fetched (trace (snd (request (answering 200) ''/items''
        (noOptions\<lparr>body := Some ''payload''\<rparr>) plainClient)))) =
   [(''/items'', None, Some ''payload'')]"
  by (simp add: eval_defs)

section \<open>What the interceptor chains write to the log\<close>

text \<open>
  A chain writes the calls of its transforms, of which only the last can have thrown, and
  then, when that one threw \<open>e\<close>, the calls of the error functions with \<open>e\<close>, in
  registration order, of which only the last can have thrown.
\<close>

lemma notifyRequestError_log:
  "notifyRequestError rs e s = (r, s') \<Longrightarrow>
   \<exists>calls. trace s' = trace s @ map (\<lambda>(i, out). OnRequestErrorCalled i e out) calls
     \<and> map fst calls = take (length calls) (requestErrorHandlers rs)
     \<and> list_all (\<lambda>c. \<not> isl (snd c)) (butlast calls)
     \<and> (r = None \<longrightarrow> length calls = length (requestErrorHandlers rs) \<and> list_all (\<lambda>c. \<not> isl (snd c)) calls)
     \<and> (\<forall>x. r = Some x \<longrightarrow> calls \<noteq> [] \<and> snd (last calls) = Inl x)"
proof (induction rs arbitrary: s)
  case Nil
  then show ?case by (auto simp: requestErrorHandlers_def)
next
  case (Cons i rest)
  show ?case
  proof (cases "onRequestError i")
    case None
    with Cons.prems have "notifyRequestError rest e s = (r, s')" by simp
    moreover have "requestErrorHandlers (i # rest) = requestErrorHandlers rest"
      using None by (simp add: requestErrorHandlers_def)
    ultimately show ?thesis using Cons.IH by simp
  next
    case (Some h)
    obtain out s1 where inv: "invoke h e s = (out, s1)" by (cases "invoke h e s")
    let ?s2 = "logEvent (OnRequestErrorCalled (req_ident i) e out) s1"
    have tr: "trace ?s2 = trace s @ [OnRequestErrorCalled (req_ident i) e out]"
      using trace_invoke [OF inv] by simp
    have hs: "requestErrorHandlers (i # rest) = req_ident i # requestErrorHandlers rest"
      using Some by (simp add: requestErrorHandlers_def)
    show ?thesis
    proof (cases out)
      case (Inl x)
      with Cons.prems Some inv have "r = Some x" "s' = ?s2" by simp_all
      with tr hs Inl show ?thesis
        by (intro exI [of _ "[(req_ident i, out)]"]) simp
    next
      case (Inr v)
      with Cons.prems Some inv have "notifyRequestError rest e ?s2 = (r, s')" by simp
      from Cons.IH [OF this] obtain calls where
        c: "trace s' = trace ?s2 @ map (\<lambda>(i, out). OnRequestErrorCalled i e out) calls"
          "map fst calls = take (length calls) (requestErrorHandlers rest)"
          "list_all (\<lambda>c. \<not> isl (snd c)) (butlast calls)"
          "r = None \<longrightarrow> length calls = length (requestErrorHandlers rest) \<and> list_all (\<lambda>c. \<not> isl (snd c)) calls"
          "\<forall>x. r = Some x \<longrightarrow> calls \<noteq> [] \<and> snd (last calls) = Inl x"
        by blast
      show ?thesis
        using c tr hs Inr
        by (intro exI [of _ "(req_ident i, out) # calls"]) auto
    qed
  qed
qed

lemma requestChain_log:
  "requestChain registered rest cfg s = (r, s') \<Longrightarrow>
   \<exists>transforms e calls.
     trace s' = trace s @ map (\<lambda>(i, c, out). OnRequestCalled i c out) transforms @
       map (\<lambda>(i, out). OnRequestErrorCalled i e out) calls
     \<and> list_all (\<lambda>t. \<not> isl (snd (snd t))) (butlast transforms)
     \<and> (\<not> isl r \<longrightarrow> calls = [] \<and> list_all (\<lambda>t. \<not> isl (snd (snd t))) transforms)
     \<and> (\<forall>x. r = Inl x \<longrightarrow>
           transforms \<noteq> [] \<and> snd (snd (last transforms)) = Inl e \<and>
           map fst calls = take (length calls) (requestErrorHandlers registered) \<and>
           list_all (\<lambda>c. \<not> isl (snd c)) (butlast calls) \<and>
           (if calls \<noteq> [] \<and> isl (snd (last calls)) then snd (last calls) = Inl x
            else length calls = length (requestErrorHandlers registered) \<and> x = e))"
proof (induction rest arbitrary: cfg s)
  case Nil
  then show ?case
    by (intro exI [of _ "[]"]) auto
next
  case (Cons i rest)
  show ?case
  proof (cases "onRequest i")
    case None
    with Cons.prems have "requestChain registered rest cfg s = (r, s')" by simp
    then show ?thesis by (rule Cons.IH)
  next
    case (Some f)
    obtain out s1 where inv: "invoke f cfg s = (out, s1)" by (cases "invoke f cfg s")
    let ?s2 = "logEvent (OnRequestCalled (req_ident i) cfg out) s1"
    have tr: "trace ?s2 = trace s @ [OnRequestCalled (req_ident i) cfg out]"
      using trace_invoke [OF inv] by simp
    show ?thesis
    proof (cases out)
      case (Inr cfg')
      with Cons.prems Some inv have "requestChain registered rest cfg' ?s2 = (r, s')" by simp
      from Cons.IH [OF this] obtain transforms e calls where
        c: "trace s' = trace ?s2 @ map (\<lambda>(i, c, out). OnRequestCalled i c out) transforms @
              map (\<lambda>(i, out). OnRequestErrorCalled i e out) calls"
          "list_all (\<lambda>t. \<not> isl (snd (snd t))) (butlast transforms)"
          "\<not> isl r \<longrightarrow> calls = [] \<and> list_all (\<lambda>t. \<not> isl (snd (snd t))) transforms"
          "\<forall>x. r = Inl x \<longrightarrow>
             transforms \<noteq> [] \<and> snd (snd (last transforms)) = Inl e \<and>
             map fst calls = take (length calls) (requestErrorHandlers registered) \<and>
             list_all (\<lambda>c. \<not> isl (snd c)) (butlast calls) \<and>
             (if calls \<noteq> [] \<and> isl (snd (last calls)) then snd (last calls) = Inl x
              else length calls = length (requestErrorHandlers registered) \<and> x = e)"
        by blast
      show ?thesis
        using c tr Inr
        by (intro exI [of _ "(req_ident i, cfg, out) # transforms"] exI [of _ e] exI [of _ calls])
          (auto split: if_splits)
    next
      case (Inl error)
      obtain nr s3 where n: "notifyRequestError registered error ?s2 = (nr, s3)"
        by (cases "notifyRequestError registered error ?s2")
      from notifyRequestError_log [OF n] obtain calls where
        c: "trace s3 = trace ?s2 @ map (\<lambda>(i, out). OnRequestErrorCalled i error out) calls"
          "map fst calls = take (length calls) (requestErrorHandlers registered)"
          "list_all (\<lambda>c. \<not> isl (snd c)) (butlast calls)"
          "nr = None \<longrightarrow> length calls = length (requestErrorHandlers registered) \<and>
             list_all (\<lambda>c. \<not> isl (snd c)) calls"
          "\<forall>x. nr = Some x \<longrightarrow> calls \<noteq> [] \<and> snd (last calls) = Inl x"
        by blast
      have res: "s' = s3" "r = (case nr of None \<Rightarrow> Inl error | Some x \<Rightarrow> Inl x)"
        using Cons.prems Some inv Inl n by (auto split: option.splits)
      show ?thesis
      proof (cases nr)
        case None
        with c have "\<not> (calls \<noteq> [] \<and> isl (snd (last calls)))"
          by (auto simp: list_all_iff)
        with c res tr Inl None show ?thesis
          by (intro exI [of _ "[(req_ident i, cfg, out)]"] exI [of _ error] exI [of _ calls]) auto
      next
        case (Some x)
        with c res tr Inl show ?thesis
          by (intro exI [of _ "[(req_ident i, cfg, out)]"] exI [of _ error] exI [of _ calls]) auto
      qed
    qed
  qed
qed

lemma notifyResponseError_log:
  "notifyResponseError rs e s = (r, s') \<Longrightarrow>
   \<exists>calls. trace s' = trace s @ map (\<lambda>(i, out). OnResponseErrorCalled i e out) calls
     \<and> map fst calls = take (length calls) (responseErrorHandlers rs)
     \<and> list_all (\<lambda>c. \<not> isl (snd c)) (butlast calls)
     \<and> (r = None \<longrightarrow> length calls = length (responseErrorHandlers rs) \<and> list_all (\<lambda>c. \<not> isl (snd c)) calls)
     \<and> (\<forall>x. r = Some x \<longrightarrow> calls \<noteq> [] \<and> snd (last calls) = Inl x)"
proof (induction rs arbitrary: s)
  case Nil
  then show ?case by (auto simp: responseErrorHandlers_def)
next
  case (Cons i rest)
  show ?case
  proof (cases "onResponseError i")
    case None
    with Cons.prems have "notifyResponseError rest e s = (r, s')" by simp
    moreover have "responseErrorHandlers (i # rest) = responseErrorHandlers rest"
      using None by (simp add: responseErrorHandlers_def)
    ultimately show ?thesis using Cons.IH by simp
  next
    case (Some h)
    obtain out s1 where inv: "invoke h e s = (out, s1)" by (cases "invoke h e s")
    let ?s2 = "logEvent (OnResponseErrorCalled (res_ident i) e out) s1"
    have tr: "trace ?s2 = trace s @ [OnResponseErrorCalled (res_ident i) e out]"
      using trace_invoke [OF inv] by simp
    have hs: "responseErrorHandlers (i # rest) = res_ident i # responseErrorHandlers rest"
      using Some by (simp add: responseErrorHandlers_def)
    show ?thesis
    proof (cases out)
      case (Inl x)
      with Cons.prems Some inv have "r = Some x" "s' = ?s2" by simp_all
      with tr hs Inl show ?thesis
        by (intro exI [of _ "[(res_ident i, out)]"]) simp
    next
      case (Inr v)
      with Cons.prems Some inv have "notifyResponseError rest e ?s2 = (r, s')" by simp
      from Cons.IH [OF this] obtain calls where
        c: "trace s' = trace ?s2 @ map (\<lambda>(i, out). OnResponseErrorCalled i e out) calls"
          "map fst calls = take (length calls) (responseErrorHandlers rest)"
          "list_all (\<lambda>c. \<not> isl (snd c)) (butlast calls)"
          "r = None \<longrightarrow> length calls = length (responseErrorHandlers rest) \<and> list_all (\<lambda>c. \<not> isl (snd c)) calls"
          "\<forall>x. r = Some x \<longrightarrow> calls \<noteq> [] \<and> snd (last calls) = Inl x"
        by blast
      show ?thesis
        using c tr hs Inr
        by (intro exI [of _ "(res_ident i, out) # calls"]) auto
    qed
  qed
qed

lemma responseChain_log:
  "responseChain registered rest response s = (r, s') \<Longrightarrow>
   \<exists>transforms e calls.
     trace s' = trace s @ map (\<lambda>(i, c, out). OnResponseCalled i c out) transforms @
       map (\<lambda>(i, out). OnResponseErrorCalled i e out) calls
     \<and> list_all (\<lambda>t. \<not> isl (snd (snd t))) (butlast transforms)
     \<and> (\<not> isl r \<longrightarrow> calls = [] \<and> list_all (\<lambda>t. \<not> isl (snd (snd t))) transforms)
     \<and> (\<forall>x. r = Inl x \<longrightarrow>
           transforms \<noteq> [] \<and> snd (snd (last transforms)) = Inl e \<and>
           map fst calls = take (length calls) (responseErrorHandlers registered) \<and>
           list_all (\<lambda>c. \<not> isl (snd c)) (butlast calls) \<and>
           (if calls \<noteq> [] \<and> isl (snd (last calls)) then snd (last calls) = Inl x
            else length calls = length (responseErrorHandlers registered) \<and> x = e))"
proof (induction rest arbitrary: response s)
  case Nil
  then show ?case
    by (intro exI [of _ "[]"]) auto
next
  case (Cons i rest)
  show ?case
  proof (cases "onResponse i")
    case None
    with Cons.prems have "responseChain registered rest response s = (r, s')" by simp
    then show ?thesis by (rule Cons.IH)
  next
    case (Some f)
    obtain out s1 where inv: "invoke f response s = (out, s1)" by (cases "invoke f response s")
    let ?s2 = "logEvent (OnResponseCalled (res_ident i) response out) s1"
    have tr: "trace ?s2 = trace s @ [OnResponseCalled (res_ident i) response out]"
      using trace_invoke [OF inv] by simp
    show ?thesis
    proof (cases out)
      case (Inr response')
      with Cons.prems Some inv have "responseChain registered rest response' ?s2 = (r, s')" by simp
      from Cons.IH [OF this] obtain transforms e calls where
        c: "trace s' = trace ?s2 @ map (\<lambda>(i, c, out). OnResponseCalled i c out) transforms @
              map (\<lambda>(i, out). OnResponseErrorCalled i e out) calls"
          "list_all (\<lambda>t. \<not> isl (snd (snd t))) (butlast transforms)"
          "\<not> isl r \<longrightarrow> calls = [] \<and> list_all (\<lambda>t. \<not> isl (snd (snd t))) transforms"
          "\<forall>x. r = Inl x \<longrightarrow>
             transforms \<noteq> [] \<and> snd (snd (last transforms)) = Inl e \<and>
             map fst calls = take (length calls) (responseErrorHandlers registered) \<and>
             list_all (\<lambda>c. \<not> isl (snd c)) (butlast calls) \<and>
             (if calls \<noteq> [] \<and> isl (snd (last calls)) then snd (last calls) = Inl x
              else length calls = length (responseErrorHandlers registered) \<and> x = e)"
        by blast
      show ?thesis
        using c tr Inr
        by (intro exI [of _ "(res_ident i, response, out) # transforms"] exI [of _ e] exI [of _ calls])
          (auto split: if_splits)
    next
      case (Inl error)
      obtain nr s3 where n: "notifyResponseError registered error ?s2 = (nr, s3)"
        by (cases "notifyResponseError registered error ?s2")
      from notifyResponseError_log [OF n] obtain calls where
        c: "trace s3 = trace ?s2 @ map (\<lambda>(i, out). OnResponseErrorCalled i error out) calls"
          "map fst calls = take (length calls) (responseErrorHandlers registered)"
          "list_all (\<lambda>c. \<not> isl (snd c)) (butlast calls)"
          "nr = None \<longrightarrow> length calls = length (responseErrorHandlers registered) \<and>
             list_all (\<lambda>c. \<not> isl (snd c)) calls"
          "\<forall>x. nr = Some x \<longrightarrow> calls \<noteq> [] \<and> snd (last calls) = Inl x"
        by blast
      have res: "s' = s3" "r = (case nr of None \<Rightarrow> Inl error | Some x \<Rightarrow> Inl x)"
        using Cons.prems Some inv Inl n by (auto split: option.splits)
      show ?thesis
      proof (cases nr)
        case None
        with c have "\<not> (calls \<noteq> [] \<and> isl (snd (last calls)))"
          by (auto simp: list_all_iff)
        with c res tr Inl None show ?thesis
          by (intro exI [of _ "[(res_ident i, response, out)]"] exI [of _ error] exI [of _ calls]) auto
      next
        case (Some x)
        with c res tr Inl show ?thesis
          by (intro exI [of _ "[(res_ident i, response, out)]"] exI [of _ error] exI [of _ calls]) auto
      qed
    qed
  qed
qed


lemma recoverLoop_log:
  "recoverLoop rs httpError error s = (r, s') \<Longrightarrow>
   \<exists>calls. trace s' = trace s @ map (\<lambda>(i, out). OnResponseErrorCalled i httpError out) calls
     \<and> map fst calls = take (length calls) (responseErrorHandlers rs)
     \<and> list_all (\<lambda>c. isl (snd c)) (butlast calls)
     \<and> (\<forall>v. r = Inr v \<longrightarrow> calls \<noteq> [] \<and> snd (last calls) = Inr v)
     \<and> (\<forall>x. r = Inl x \<longrightarrow> length calls = length (responseErrorHandlers rs) \<and>
            list_all (\<lambda>c. isl (snd c)) calls \<and>
            x = (if calls = [] then error else projl (snd (last calls))))"
proof (induction rs arbitrary: s error)
  case Nil
  then show ?case by (auto simp: responseErrorHandlers_def)
next
  case (Cons i rest)
  show ?case
  proof (cases "onResponseError i")
    case None
    with Cons.prems have "recoverLoop rest httpError error s = (r, s')" by simp
    moreover have "responseErrorHandlers (i # rest) = responseErrorHandlers rest"
      using None by (simp add: responseErrorHandlers_def)
    ultimately show ?thesis using Cons.IH by simp
  next
    case (Some h)
    obtain out s1 where inv: "invoke h httpError s = (out, s1)" by (cases "invoke h httpError s")
    let ?s2 = "logEvent (OnResponseErrorCalled (res_ident i) httpError out) s1"
    have tr: "trace ?s2 = trace s @ [OnResponseErrorCalled (res_ident i) httpError out]"
      using trace_invoke [OF inv] by simp
    have hs: "responseErrorHandlers (i # rest) = res_ident i # responseErrorHandlers rest"
      using Some by (simp add: responseErrorHandlers_def)
    show ?thesis
    proof (cases out)
      case (Inr v)
      with Cons.prems Some inv have "r = Inr v" "s' = ?s2" by auto
      with tr hs Inr show ?thesis
        by (intro exI [of _ "[(res_ident i, out)]"]) simp
    next
      case (Inl interceptorError)
      with Cons.prems Some inv have "recoverLoop rest httpError interceptorError ?s2 = (r, s')" by simp
      from Cons.IH [OF this] obtain calls where
        c: "trace s' = trace ?s2 @ map (\<lambda>(i, out). OnResponseErrorCalled i httpError out) calls"
          "map fst calls = take (length calls) (responseErrorHandlers rest)"
          "list_all (\<lambda>c. isl (snd c)) (butlast calls)"
          "\<forall>v. r = Inr v \<longrightarrow> calls \<noteq> [] \<and> snd (last calls) = Inr v"
          "\<forall>x. r = Inl x \<longrightarrow> length calls = length (responseErrorHandlers rest) \<and>
            list_all (\<lambda>c. isl (snd c)) calls \<and>
            x = (if calls = [] then interceptorError else projl (snd (last calls)))"
        by blast
      show ?thesis
        using c tr hs Inl
        by (intro exI [of _ "(res_ident i, out) # calls"]) auto
    qed
  qed
qed

lemma requestErrorCalls_simps [simp]:
  "requestErrorCalls [] = []"
  "requestErrorCalls (ev # evs) = requestErrorCallOf ev @ requestErrorCalls evs"
  "requestErrorCalls (evs @ evs') = requestErrorCalls evs @ requestErrorCalls evs'"
  by (simp_all add: requestErrorCalls_def)

lemma responseErrorCalls_simps [simp]:
  "responseErrorCalls [] = []"
  "responseErrorCalls (ev # evs) = responseErrorCallOf ev @ responseErrorCalls evs"
  "responseErrorCalls (evs @ evs') = responseErrorCalls evs @ responseErrorCalls evs'"
  by (simp_all add: responseErrorCalls_def)

lemma requestSide_quiet:
  "list_all requestSide evs \<Longrightarrow> responseErrorCalls evs = []"
  by (induction evs) (auto elim: requestSide.elims)

lemma requestSide_no_transform:
  "list_all requestSide evs \<Longrightarrow> OnResponseCalled i response out \<notin> set evs"
  by (auto simp: list_all_iff)

lemma responseErrorCalls_transforms [simp]:
  "responseErrorCalls (map (\<lambda>(i, c, out). OnResponseCalled i c out) transforms) = []"
  by (induction transforms) auto

lemma responseErrorCalls_calls [simp]:
  "responseErrorCalls (map (\<lambda>(i, out). OnResponseErrorCalled i e out) calls) =
     map (\<lambda>(i, out). (i, e, out)) calls"
  by (induction calls) auto

lemma only_last_fails:
  "x \<in> set xs \<Longrightarrow> list_all (\<lambda>t. \<not> P t) (butlast xs) \<Longrightarrow> P x \<Longrightarrow> xs \<noteq> [] \<and> x = last xs"
  by (induction xs) (auto split: if_splits)


section \<open>The request-error functions\<close>

text \<open>
  Claim C5, amended. When a transform of a request interceptor throws \<open>e\<close>, the
  request-error functions are called with \<open>e\<close> in registration order, each at most once,
  up to the first that itself throws. When none throws, every one of them has been called
  and \<open>e\<close> is thrown; when one throws, the later ones are not called and what it threw
  is thrown. What the functions return is dropped: the chain fails in both cases, and so
  does the \<^verbatim>\<open>try\<close> block of \<^verbatim>\<open>request\<close>, from the same state, in which the
  transport has not been called.
\<close>

theorem request_error_functions:
  assumes "applyRequestInterceptors config s = (r, s')"
  shows "\<exists>transforms e calls.
     trace s' = trace s @ map (\<lambda>(i, c, out). OnRequestCalled i c out) transforms @
       map (\<lambda>(i, out). OnRequestErrorCalled i e out) calls
     \<and> list_all (\<lambda>t. \<not> isl (snd (snd t))) (butlast transforms)
     \<and> (\<not> isl r \<longrightarrow> calls = [] \<and> list_all (\<lambda>t. \<not> isl (snd (snd t))) transforms)
     \<and> (\<forall>x. r = Inl x \<longrightarrow>
           transforms \<noteq> [] \<and> snd (snd (last transforms)) = Inl e \<and>
           map fst calls = take (length calls) (requestErrorHandlers (requestInterceptors s)) \<and>
           list_all (\<lambda>c. \<not> isl (snd c)) (butlast calls) \<and>
           (if calls \<noteq> [] \<and> isl (snd (last calls)) then snd (last calls) = Inl x
            else length calls = length (requestErrorHandlers (requestInterceptors s)) \<and> x = e) \<and>
           request_try host url config controller requestKey timeoutId s = (Inl x, s'))"
proof -
  from assms have "requestChain (requestInterceptors s) (requestInterceptors s) config s = (r, s')"
    by (simp add: applyRequestInterceptors_def)
  from requestChain_log [OF this] obtain transforms e calls where
    c: "trace s' = trace s @ map (\<lambda>(i, c, out). OnRequestCalled i c out) transforms @
          map (\<lambda>(i, out). OnRequestErrorCalled i e out) calls"
      "list_all (\<lambda>t. \<not> isl (snd (snd t))) (butlast transforms)"
      "\<not> isl r \<longrightarrow> calls = [] \<and> list_all (\<lambda>t. \<not> isl (snd (snd t))) transforms"
      "\<forall>x. r = Inl x \<longrightarrow>
         transforms \<noteq> [] \<and> snd (snd (last transforms)) = Inl e \<and>
         map fst calls = take (length calls) (requestErrorHandlers (requestInterceptors s)) \<and>
         list_all (\<lambda>c. \<not> isl (snd c)) (butlast calls) \<and>
         (if calls \<noteq> [] \<and> isl (snd (last calls)) then snd (last calls) = Inl x
          else length calls = length (requestErrorHandlers (requestInterceptors s)) \<and> x = e)"
    by blast
  have "request_try host url config controller requestKey timeoutId s = (Inl x, s')" if "r = Inl x" for x
    using that assms by (simp add: request_try_def)
  with c show ?thesis
    by (intro exI [of _ transforms] exI [of _ e] exI [of _ calls]) simp
qed

text \<open>
  Both request-error functions of the watched client return; both are called, once, with
  the failure of the transform, which is then thrown, and the transport is not called.
\<close>

theorem request_error_functions_witness:
  "fst (applyRequestInterceptors noOptions watchedClient) = Inl boom \<and>
   requestErrorHandlers (requestInterceptors watchedClient) = [1, 2] \<and>
   requestErrorCalls (trace (snd (applyRequestInterceptors noOptions watchedClient))) =
     [(1, boom, Inr None), (2, boom, Inr None)] \<and>
   request_try (answering 200) ''/items'' noOptions 0 [] 0 watchedClient =
     (Inl boom, snd (applyRequestInterceptors noOptions watchedClient)) \<and>
   fetched (trace (snd (request (answering 200) ''/items'' noOptions watchedClient))) = []"
proof -
  have "fst (applyRequestInterceptors noOptions watchedClient) = Inl boom"
    by (simp add: eval_defs)
  then have a: "applyRequestInterceptors noOptions watchedClient =
      (Inl boom, snd (applyRequestInterceptors noOptions watchedClient))"
    by (simp add: prod_eq_iff)
  from request_error_functions [OF a, of "answering 200" "''/items''" 0 "[]" 0]
  have "request_try (answering 200) ''/items'' noOptions 0 [] 0 watchedClient =
     (Inl boom, snd (applyRequestInterceptors noOptions watchedClient))"
    by blast
  moreover have "fst (applyRequestInterceptors noOptions watchedClient) = Inl boom"
    "requestErrorHandlers (requestInterceptors watchedClient) = [1, 2]"
    "requestErrorCalls (trace (snd (applyRequestInterceptors noOptions watchedClient))) =
       [(1, boom, Inr None), (2, boom, Inr None)]"
    "fetched (trace (snd (request (answering 200) ''/items'' noOptions watchedClient))) = []"
    by (simp_all add: eval_defs)
  ultimately show ?thesis by blast
qed

text \<open>
  The claim as stated fails for the request-error function of
  \<^verbatim>\<open>createAuthInterceptor\<close>, which throws: of the two that are registered only the
  first is called.
\<close>

theorem throwing_error_function_ends_loop:
  "fst (applyRequestInterceptors noOptions authClient) = Inl noToken \<and>
   requestErrorHandlers (requestInterceptors authClient) = [1, 2] \<and>
   requestErrorCalls (trace (snd (applyRequestInterceptors noOptions authClient))) =
     [(1, noToken, Inl noToken)]"
  by (simp add: eval_defs)


section \<open>Recovery by the response-error functions\<close>

lemma fallthrough_log:
  assumes "request_fallthrough options error s = (r, s')"
  shows "\<exists>calls. trace s' = trace s @ map (\<lambda>(i, out). OnResponseErrorCalled i error out) calls
     \<and> map fst calls = take (length calls) (responseErrorHandlers (responseInterceptors s))
     \<and> list_all (\<lambda>c. isl (snd c)) (butlast calls)
     \<and> (if calls \<noteq> [] \<and> \<not> isl (snd (last calls)) then r = Inr (projr (snd (last calls)))
        else length calls = length (responseErrorHandlers (responseInterceptors s)) \<and>
             r = Inl (translateAbort options (if calls = [] then error else projl (snd (last calls)))))"
proof -
  obtain r0 s0 where l: "recoverLoop (responseInterceptors s) error error s = (r0, s0)"
    by (cases "recoverLoop (responseInterceptors s) error error s")
  from recoverLoop_log [OF l] obtain calls where
    c: "trace s0 = trace s @ map (\<lambda>(i, out). OnResponseErrorCalled i error out) calls"
      "map fst calls = take (length calls) (responseErrorHandlers (responseInterceptors s))"
      "list_all (\<lambda>c. isl (snd c)) (butlast calls)"
      "\<forall>v. r0 = Inr v \<longrightarrow> calls \<noteq> [] \<and> snd (last calls) = Inr v"
      "\<forall>x. r0 = Inl x \<longrightarrow> length calls = length (responseErrorHandlers (responseInterceptors s)) \<and>
            list_all (\<lambda>c. isl (snd c)) calls \<and>
            x = (if calls = [] then error else projl (snd (last calls)))"
    by blast
  show ?thesis
  proof (cases r0)
    case (Inr v)
    with assms l have "r = Inr v" "s' = s0" by (simp_all add: request_fallthrough_def)
    with c Inr show ?thesis by (intro exI [of _ calls]) simp
  next
    case (Inl x)
    with assms l have "r = Inl (translateAbort options x)" "s' = s0"
      by (simp_all add: request_fallthrough_def)
    moreover from c Inl have "list_all (\<lambda>c. isl (snd c)) calls"
      by simp
    then have "\<not> (calls \<noteq> [] \<and> \<not> isl (snd (last calls)))"
      unfolding list_all_iff using last_in_set by blast
    ultimately show ?thesis using c Inl by (intro exI [of _ calls]) auto
  qed
qed

lemma request_without_retry:
  assumes "request_begin url options s = (controller, requestKey, timeoutId, s0)"
    and "request_try host url options controller requestKey timeoutId s0 = (Inl error, s1)"
    and "retryBudget (effectiveRetry options s) = 0"
  shows "request host url options s =
           request_fallthrough options error (request_cleanup timeoutId requestKey s1)"
    and "responseInterceptors (request_cleanup timeoutId requestKey s1) = responseInterceptors s"
    and "trace (request_cleanup timeoutId requestKey s1) = trace s1"
proof -
  show "request host url options s =
           request_fallthrough options error (request_cleanup timeoutId requestKey s1)"
    using request_step [OF assms(1,2)] assms(3)
    by (auto simp: retryBudget_def split: option.splits)
  have "responseInterceptors s0 = responseInterceptors s"
    using assms(1) by (auto simp: request_begin_def logEvent_def Let_def)
  moreover have "responseInterceptors s1 = responseInterceptors s0"
    using proceeds_try [OF assms(2)] by (simp add: proceeds_def)
  ultimately show "responseInterceptors (request_cleanup timeoutId requestKey s1) = responseInterceptors s"
    by (simp add: request_cleanup_def clearTimeout_def Let_def)
  show "trace (request_cleanup timeoutId requestKey s1) = trace s1"
    by (simp add: request_cleanup_def clearTimeout_def Let_def)
qed

text \<open>
  Claim C6, amended. When the \<^verbatim>\<open>try\<close> block fails with \<open>error\<close> and no retry is
  allowed, the response-error functions are called with \<open>error\<close> in registration order
  up to the first that returns; what it returns is the result of the request. When every
  one of them throws, the last thing thrown (or \<open>error\<close>, when there is no such
  function) goes through the abort translation, and the outcome of that is thrown.
\<close>

theorem response_error_recovery:
  assumes "request_begin url options s = (controller, requestKey, timeoutId, s0)"
    and "request_try host url options controller requestKey timeoutId s0 = (Inl error, s1)"
    and "retryBudget (effectiveRetry options s) = 0"
  shows "\<exists>calls.
     trace (snd (request host url options s)) =
       trace s1 @ map (\<lambda>(i, out). OnResponseErrorCalled i error out) calls
     \<and> map fst calls = take (length calls) (responseErrorHandlers (responseInterceptors s))
     \<and> list_all (\<lambda>c. isl (snd c)) (butlast calls)
     \<and> (if calls \<noteq> [] \<and> \<not> isl (snd (last calls))
        then fst (request host url options s) = Inr (projr (snd (last calls)))
        else length calls = length (responseErrorHandlers (responseInterceptors s)) \<and>
             fst (request host url options s) =
               Inl (translateAbort options (if calls = [] then error else projl (snd (last calls)))))"
proof -
  note w = request_without_retry [OF assms]
  obtain r s' where f: "request_fallthrough options error (request_cleanup timeoutId requestKey s1) = (r, s')"
    by (cases "request_fallthrough options error (request_cleanup timeoutId requestKey s1)")
  from fallthrough_log [OF f] show ?thesis
    unfolding w f fst_conv snd_conv .
qed

text \<open>
  After a 404 the logging interceptor's function throws and the next one returns an
  envelope, which is the result; with the logging interceptor alone the 404 is thrown.
\<close>

theorem response_error_recovery_witness:
  "responseErrorCalls (trace (snd (request (answering 404) ''/items'' noOptions loggingRecoveringClient))) =
     [(3, failure 404 noOptions, Inl (failure 404 noOptions)),
      (7, failure 404 noOptions, Inr (Envelope fallback))] \<and>
   fst (request (answering 404) ''/items'' noOptions loggingRecoveringClient) = Inr (Envelope fallback) \<and>
   fst (request (answering 404) ''/items'' noOptions loggingClient) = Inl (failure 404 noOptions)"
proof -
  obtain c k t s0 where
    b: "request_begin ''/items'' noOptions loggingRecoveringClient = (c, k, t, s0)"
    by (cases "request_begin ''/items'' noOptions loggingRecoveringClient")
  have t: "request_try (answering 404) ''/items'' noOptions c k t s0 =
      (Inl (failure 404 noOptions), snd (request_try (answering 404) ''/items'' noOptions c k t s0))"
    using b by (auto simp: eval_defs)
  have nr: "retryBudget (effectiveRetry noOptions loggingRecoveringClient) = 0"
    by (simp add: eval_defs retryBudget_def)
  have
    "responseErrorCalls (trace (snd (request (answering 404) ''/items'' noOptions loggingRecoveringClient))) =
       [(3, failure 404 noOptions, Inl (failure 404 noOptions)),
        (7, failure 404 noOptions, Inr (Envelope fallback))]"
    "fst (request (answering 404) ''/items'' noOptions loggingRecoveringClient) = Inr (Envelope fallback)"
    "fst (request (answering 404) ''/items'' noOptions loggingClient) = Inl (failure 404 noOptions)"
    by (simp_all add: eval_defs)
  with response_error_recovery [OF b t nr] show ?thesis by blast
qed

text \<open>
  The claim as stated fails when the last thing thrown is an \<^verbatim>\<open>AbortError\<close>: after
  the timer has aborted the call the logging interceptor's function throws the abort
  reason, and the caller gets the record \<^verbatim>\<open>Request was cancelled\<close> instead.
\<close>

theorem abort_is_translated_after_chain:
  "responseErrorCalls (trace (snd (request stalling ''/items'' noOptions loggingClient))) =
     [(3, abortReason, Inl abortReason)] \<and>
   fst (request stalling ''/items'' noOptions loggingClient) =
     Inl (ErrorRecord ''Request was cancelled'' None None (Some noOptions) (Some abortReason)) \<and>
   fst (request stalling ''/items'' noOptions loggingClient) \<noteq> Inl abortReason"
  by (simp add: eval_defs)


section \<open>The response-error functions are called twice\<close>

lemma requestSide_requestChain:
  "requestChain registered rest cfg s = (r, s') \<Longrightarrow>
     \<exists>evs. trace s' = trace s @ evs \<and> list_all requestSide evs"
proof -
  assume "requestChain registered rest cfg s = (r, s')"
  from requestChain_log [OF this] obtain transforms e calls where
    "trace s' = trace s @ map (\<lambda>(i, c, out). OnRequestCalled i c out) transforms @
          map (\<lambda>(i, out). OnRequestErrorCalled i e out) calls"
    by blast
  moreover have "list_all requestSide (map (\<lambda>(i, c, out). OnRequestCalled i c out) transforms @
          map (\<lambda>(i, out). OnRequestErrorCalled i e out) calls)"
    by (auto simp: list_all_iff)
  ultimately show ?thesis by blast
qed

lemma request_try_log:
  assumes "request_try host url options controller requestKey timeoutId s = (r, s')"
  shows "\<exists>before transforms e calls.
     trace s' = trace s @ before @ map (\<lambda>(i, c, out). OnResponseCalled i c out) transforms @
       map (\<lambda>(i, out). OnResponseErrorCalled i e out) calls
     \<and> list_all requestSide before
     \<and> list_all (\<lambda>t. \<not> isl (snd (snd t))) (butlast transforms)
     \<and> (\<not> (transforms \<noteq> [] \<and> isl (snd (snd (last transforms)))) \<longrightarrow> calls = [])
     \<and> (transforms \<noteq> [] \<and> isl (snd (snd (last transforms))) \<longrightarrow>
          isl r \<and> snd (snd (last transforms)) = Inl e \<and>
          map fst calls = take (length calls) (responseErrorHandlers (responseInterceptors s)) \<and>
          list_all (\<lambda>c. \<not> isl (snd c)) (butlast calls) \<and>
          (if calls \<noteq> [] \<and> isl (snd (last calls)) then snd (last calls) = Inl (projl r)
           else length calls = length (responseErrorHandlers (responseInterceptors s)) \<and> r = Inl e))"
proof -
  have early: ?thesis if "trace s' = trace s @ before" "list_all requestSide before" for before
    using that
    by (intro exI [of _ before] exI [of _ "[]"]) simp
  obtain r1 s1 where a: "applyRequestInterceptors options s = (r1, s1)"
    by (cases "applyRequestInterceptors options s")
  then have chain: "requestChain (requestInterceptors s) (requestInterceptors s) options s = (r1, s1)"
    by (simp add: applyRequestInterceptors_def)
  from requestSide_requestChain [OF chain] obtain evs1 where
    e1: "trace s1 = trace s @ evs1" "list_all requestSide evs1"
    by blast
  have same1: "responseInterceptors s1 = responseInterceptors s"
    using proceeds_requestChain [OF chain] by (simp add: proceeds_def)
  show ?thesis
  proof (cases r1)
    case (Inl error)
    with assms a have "s' = s1" by (simp add: request_try_def)
    with e1 show ?thesis by (intro early [of evs1]) simp_all
  next
    case (Inr interceptedOptions)
    let ?fullUrl = "createURLWithParams (baseURL s1 @ url) (params interceptedOptions)"
    let ?fetchOptions = "buildFetchOptions s1 interceptedOptions controller"
    obtain outcome s2 where f: "invoke (fetch host ?fullUrl) ?fetchOptions s1 = (outcome, s2)"
      by (cases "invoke (fetch host ?fullUrl) ?fetchOptions s1")
    let ?s3 = "logEvent (FetchCalled ?fullUrl ?fetchOptions outcome) s2"
    let ?before = "evs1 @ [FetchCalled ?fullUrl ?fetchOptions outcome]"
    have tr3: "trace ?s3 = trace s @ ?before"
      using trace_invoke [OF f] e1 by simp
    have rs: "list_all requestSide ?before"
      using e1 by simp
    have same3: "responseInterceptors ?s3 = responseInterceptors s"
      using proceeds_invoke [OF f] same1 by (simp add: proceeds_def logEvent_def)
    show ?thesis
    proof (cases outcome)
      case (Resolves response)
      let ?s4 = "request_cleanup timeoutId requestKey ?s3"
      have tr4: "trace ?s4 = trace s @ ?before" "responseInterceptors ?s4 = responseInterceptors s"
        using tr3 same3 by (simp_all add: request_cleanup_def clearTimeout_def Let_def)
      show ?thesis
      proof (cases "handleResponse response interceptedOptions")
        case (Inl error)
        with assms a Inr f Resolves have "s' = ?s4" by (simp add: request_try_def Let_def)
        with tr4 rs show ?thesis by (intro early [of ?before]) simp_all
      next
        case handled: (Inr handledResponse)
        with assms a Inr f Resolves
        have "responseChain (responseInterceptors ?s4) (responseInterceptors ?s4) handledResponse ?s4 = (r, s')"
          by (simp add: request_try_def Let_def applyResponseInterceptors_def)
        from responseChain_log [OF this] obtain transforms e calls where
          c: "trace s' = trace ?s4 @ map (\<lambda>(i, c, out). OnResponseCalled i c out) transforms @
                map (\<lambda>(i, out). OnResponseErrorCalled i e out) calls"
            "list_all (\<lambda>t. \<not> isl (snd (snd t))) (butlast transforms)"
            "\<not> isl r \<longrightarrow> calls = [] \<and> list_all (\<lambda>t. \<not> isl (snd (snd t))) transforms"
            "\<forall>x. r = Inl x \<longrightarrow>
               transforms \<noteq> [] \<and> snd (snd (last transforms)) = Inl e \<and>
               map fst calls = take (length calls) (responseErrorHandlers (responseInterceptors ?s4)) \<and>
               list_all (\<lambda>c. \<not> isl (snd c)) (butlast calls) \<and>
               (if calls \<noteq> [] \<and> isl (snd (last calls)) then snd (last calls) = Inl x
                else length calls = length (responseErrorHandlers (responseInterceptors ?s4)) \<and> x = e)"
          by blast
        have quiet: "calls = []" if "\<not> (transforms \<noteq> [] \<and> isl (snd (snd (last transforms))))"
        proof (cases r)
          case (Inl x)
          with c(4) that show ?thesis by auto
        next
          case (Inr v)
          with c(3) show ?thesis by simp
        qed
        have loud: "isl r \<and> snd (snd (last transforms)) = Inl e \<and>
          map fst calls = take (length calls) (responseErrorHandlers (responseInterceptors s)) \<and>
          list_all (\<lambda>c. \<not> isl (snd c)) (butlast calls) \<and>
          (if calls \<noteq> [] \<and> isl (snd (last calls)) then snd (last calls) = Inl (projl r)
           else length calls = length (responseErrorHandlers (responseInterceptors s)) \<and> r = Inl e)"
          if "transforms \<noteq> []" "isl (snd (snd (last transforms)))"
        proof (cases r)
          case (Inl x)
          with c(4) show ?thesis unfolding tr4(2) by (auto split: if_splits)
        next
          case (Inr v)
          with c(3) have "list_all (\<lambda>t. \<not> isl (snd (snd t))) transforms" by simp
          with that show ?thesis unfolding list_all_iff using last_in_set by blast
        qed
        have "trace s' = trace s @ ?before @ map (\<lambda>(i, c, out). OnResponseCalled i c out) transforms @
                map (\<lambda>(i, out). OnResponseErrorCalled i e out) calls"
          using c(1) tr4(1) by simp
        with c(2) quiet loud rs show ?thesis
          by (intro exI [of _ ?before] exI [of _ transforms] exI [of _ e] exI [of _ calls]) blast
      qed
    next
      case (Rejects error)
      with assms a Inr f have "s' = ?s3" by (simp add: request_try_def Let_def)
      with tr3 rs show ?thesis by (intro early [of ?before]) simp_all
    next
      case TimeoutFires
      with assms a Inr f have "s' = fireTimeout timeoutId ?s3" by (simp add: request_try_def Let_def)
      then have "trace s' = trace ?s3"
        by (simp add: fireTimeout_def split: option.splits prod.splits)
      with tr3 rs show ?thesis by (intro early [of ?before]) simp_all
    qed
  qed
qed

text \<open>
  Claim C10. Let a transform of a response interceptor throw \<open>e\<close> in an attempt with no
  retry allowed, and let the response-error functions called in the \<^verbatim>\<open>try\<close> block
  all return. Then the \<^verbatim>\<open>try\<close> block has called every response-error function once
  with \<open>e\<close>, in registration order, and fails with \<open>e\<close>; and the \<^verbatim>\<open>catch\<close> of
  \<^verbatim>\<open>request\<close> calls them with \<open>e\<close> again, from the first on: the first is called a
  second time, and when a function called there returns, its value is the result of the
  request.
\<close>

theorem response_error_functions_twice:
  assumes b: "request_begin url options s = (controller, requestKey, timeoutId, s0)"
    and t: "request_try host url options controller requestKey timeoutId s0 = (r1, s1)"
    and nr: "retryBudget (effectiveRetry options s) = 0"
    and failed: "OnResponseCalled i envelope (Inl e) \<in> set (drop (length (trace s0)) (trace s1))"
    and returned: "list_all (\<lambda>c. \<not> isl (snd (snd c)))
       (responseErrorCalls (drop (length (trace s0)) (trace s1)))"
  shows "r1 = Inl e \<and>
     map (\<lambda>c. (fst c, fst (snd c))) (responseErrorCalls (drop (length (trace s0)) (trace s1))) =
       map (\<lambda>j. (j, e)) (responseErrorHandlers (responseInterceptors s)) \<and>
     (\<exists>calls.
        trace (snd (request host url options s)) =
          trace s1 @ map (\<lambda>(j, out). OnResponseErrorCalled j e out) calls \<and>
        map fst calls = take (length calls) (responseErrorHandlers (responseInterceptors s)) \<and>
        (responseErrorHandlers (responseInterceptors s) \<noteq> [] \<longrightarrow> calls \<noteq> []) \<and>
        (calls \<noteq> [] \<and> \<not> isl (snd (last calls)) \<longrightarrow>
           fst (request host url options s) = Inr (projr (snd (last calls)))))"
proof -
  have same0: "responseInterceptors s0 = responseInterceptors s"
    using b by (auto simp: request_begin_def logEvent_def Let_def)
  from request_try_log [OF t] obtain before transforms e' calls where
    tr: "trace s1 = trace s0 @ before @ map (\<lambda>(i, c, out). OnResponseCalled i c out) transforms @
       map (\<lambda>(i, out). OnResponseErrorCalled i e' out) calls" and
    rs: "list_all requestSide before" and
    bl: "list_all (\<lambda>t. \<not> isl (snd (snd t))) (butlast transforms)" and
    loud: "transforms \<noteq> [] \<and> isl (snd (snd (last transforms))) \<longrightarrow>
          isl r1 \<and> snd (snd (last transforms)) = Inl e' \<and>
          map fst calls = take (length calls) (responseErrorHandlers (responseInterceptors s0)) \<and>
          list_all (\<lambda>c. \<not> isl (snd c)) (butlast calls) \<and>
          (if calls \<noteq> [] \<and> isl (snd (last calls)) then snd (last calls) = Inl (projl r1)
           else length calls = length (responseErrorHandlers (responseInterceptors s0)) \<and> r1 = Inl e')"
    by blast
  let ?new = "drop (length (trace s0)) (trace s1)"
  have new: "?new = before @ map (\<lambda>(i, c, out). OnResponseCalled i c out) transforms @
       map (\<lambda>(i, out). OnResponseErrorCalled i e' out) calls"
    using tr by simp
  have obs: "responseErrorCalls ?new = map (\<lambda>(i, out). (i, e', out)) calls"
    unfolding new using requestSide_quiet [OF rs] by simp
  have "OnResponseCalled i envelope (Inl e) \<in> set (map (\<lambda>(i, c, out). OnResponseCalled i c out) transforms)"
    using failed requestSide_no_transform [OF rs] unfolding new by auto
  then have "(i, envelope, Inl e) \<in> set transforms" by auto
  from only_last_fails [OF this, of "\<lambda>t. isl (snd (snd t))"] bl
  have last: "transforms \<noteq> []" "last transforms = (i, envelope, Inl e)" by simp_all
  with loud have e: "e' = e" and
    hs: "map fst calls = take (length calls) (responseErrorHandlers (responseInterceptors s))" and
    fin: "if calls \<noteq> [] \<and> isl (snd (last calls)) then snd (last calls) = Inl (projl r1)
           else length calls = length (responseErrorHandlers (responseInterceptors s)) \<and> r1 = Inl e'"
    unfolding same0 by simp_all
  have allret: "list_all (\<lambda>c. \<not> isl (snd c)) calls"
    using returned unfolding obs by (simp add: list_all_iff split_beta)
  then have "\<not> (calls \<noteq> [] \<and> isl (snd (last calls)))"
    unfolding list_all_iff using last_in_set by blast
  with fin have full: "length calls = length (responseErrorHandlers (responseInterceptors s))"
    and r1: "r1 = Inl e"
    unfolding e by simp_all
  have first: "map (\<lambda>c. (fst c, fst (snd c))) (responseErrorCalls ?new) =
       map (\<lambda>j. (j, e)) (responseErrorHandlers (responseInterceptors s))"
  proof -
    have "map (\<lambda>c. (fst c, fst (snd c))) (responseErrorCalls ?new) = map (\<lambda>j. (j, e)) (map fst calls)"
      unfolding obs e by (simp add: split_beta comp_def)
    also have "map fst calls = responseErrorHandlers (responseInterceptors s)"
      using hs full by simp
    finally show ?thesis .
  qed
  note w = request_without_retry [OF b t [unfolded r1] nr]
  obtain r s' where f: "request_fallthrough options e (request_cleanup timeoutId requestKey s1) = (r, s')"
    by (cases "request_fallthrough options e (request_cleanup timeoutId requestKey s1)")
  from fallthrough_log [OF f] obtain again where
    a: "trace s' = trace s1 @ map (\<lambda>(i, out). OnResponseErrorCalled i e out) again"
      "map fst again = take (length again) (responseErrorHandlers (responseInterceptors s))"
      "if again \<noteq> [] \<and> \<not> isl (snd (last again)) then r = Inr (projr (snd (last again)))
        else length again = length (responseErrorHandlers (responseInterceptors s)) \<and>
             r = Inl (translateAbort options (if again = [] then e else projl (snd (last again))))"
    unfolding w by blast
  have "responseErrorHandlers (responseInterceptors s) \<noteq> [] \<longrightarrow> again \<noteq> []"
    using a(3) by (auto split: if_splits)
  moreover have "again \<noteq> [] \<and> \<not> isl (snd (last again)) \<longrightarrow> r = Inr (projr (snd (last again)))"
    using a(3) by simp
  ultimately have "\<exists>calls.
        trace (snd (request host url options s)) =
          trace s1 @ map (\<lambda>(j, out). OnResponseErrorCalled j e out) calls \<and>
        map fst calls = take (length calls) (responseErrorHandlers (responseInterceptors s)) \<and>
        (responseErrorHandlers (responseInterceptors s) \<noteq> [] \<longrightarrow> calls \<noteq> []) \<and>
        (calls \<noteq> [] \<and> \<not> isl (snd (last calls)) \<longrightarrow>
           fst (request host url options s) = Inr (projr (snd (last calls))))"
    using a(1,2) unfolding w(1) f fst_conv snd_conv by (intro exI [of _ again]) simp
  with r1 first show ?thesis by blast
qed

text \<open>
  The response interceptor of this client throws in its transform and returns an envelope
  from its error function: the function is called twice with the same failure, and the
  request resolves with the envelope.
\<close>

theorem response_error_functions_twice_witness:
  "responseErrorCalls (trace (snd (request (answering 200) ''/items'' noOptions rejectingClient))) =
     [(5, boom, Inr (Envelope fallback)), (5, boom, Inr (Envelope fallback))] \<and>
   fst (request (answering 200) ''/items'' noOptions rejectingClient) = Inr (Envelope fallback)"
proof -
  obtain c k t s0 where
    b: "request_begin ''/items'' noOptions rejectingClient = (c, k, t, s0)"
    by (cases "request_begin ''/items'' noOptions rejectingClient")
  obtain r1 s1 where
    t: "request_try (answering 200) ''/items'' noOptions c k t s0 = (r1, s1)"
    by (cases "request_try (answering 200) ''/items'' noOptions c k t s0")
  have nr: "retryBudget (effectiveRetry noOptions rejectingClient) = 0"
    by (simp add: eval_defs retryBudget_def)
  have failed: "OnResponseCalled 5
      \<lparr> res_data = None, res_status = 200, res_headers = [(''content-length'', ''0'')],
        res_config = noOptions \<rparr> (Inl boom) \<in> set (drop (length (trace s0)) (trace s1))"
    using b t by (auto simp: eval_defs)
  have returned: "list_all (\<lambda>c. \<not> isl (snd (snd c)))
       (responseErrorCalls (drop (length (trace s0)) (trace s1)))"
    using b t by (auto simp: eval_defs)
  have "r1 = Inl boom"
    using response_error_functions_twice [OF b t nr failed returned] by blast
  moreover have
    "responseErrorCalls (trace (snd (request (answering 200) ''/items'' noOptions rejectingClient))) =
       [(5, boom, Inr (Envelope fallback)), (5, boom, Inr (Envelope fallback))]"
    "fst (request (answering 200) ''/items'' noOptions rejectingClient) = Inr (Envelope fallback)"
    by (simp_all add: eval_defs)
  ultimately show ?thesis by blast
qed

section \<open>The retry budget\<close>










end
